theory Spec2Isabelle
  imports Complex_Main
begin

section \<open>JavaScript values\<close>

text \<open>
  The server is \<^verbatim>\<open>server.js\<close> (an Express application). A JavaScript string is a
  sequence of UTF-16 code units; a code unit is modelled by its number, so that
  \<^verbatim>\<open>s.length\<close> is \<open>length s\<close>. \<open>js\<close> turns an ASCII literal into such a string.
\<close>

type_synonym jchar = nat
type_synonym jstring = "jchar list"

definition js :: "string \<Rightarrow> jstring" where
  "js s = map of_char s"

text \<open>
  A JavaScript number is modelled by the real number its decimal digits denote (the
  rounding to a double, which a literal and \<^verbatim>\<open>parseFloat\<close> of the same digits share,
  is left out); \<open>JNaN\<close> is \<^verbatim>\<open>NaN\<close>. A nested object is a list of its own properties.
\<close>

datatype jval =
    JUndef
  | JNull
  | JBool bool
  | JNum real
  | JNaN
  | JStr jstring
  | JArr "jval list"
  | JObj "(jstring \<times> jval) list"

text \<open>A record of the store, and a request body, is a map from property names to values.\<close>

type_synonym jobj = "jstring \<rightharpoonup> jval"

text \<open>Property access: a missing property reads as \<^verbatim>\<open>undefined\<close>.\<close>

definition get :: "jobj \<Rightarrow> string \<Rightarrow> jval" where
  "get r k = (case r (js k) of None \<Rightarrow> JUndef | Some v \<Rightarrow> v)"

text \<open>Truthiness, and the operator \<^verbatim>\<open>a || b\<close>.\<close>

fun truthy :: "jval \<Rightarrow> bool" where
  "truthy JUndef = False"
| "truthy JNull = False"
| "truthy (JBool b) = b"
| "truthy (JNum n) = (n \<noteq> 0)"
| "truthy JNaN = False"
| "truthy (JStr s) = (s \<noteq> [])"
| "truthy (JArr xs) = True"
| "truthy (JObj ps) = True"

definition js_or :: "jval \<Rightarrow> jval \<Rightarrow> jval" where
  "js_or a b = (if truthy a then a else b)"

section \<open>Characters and string methods\<close>

definition is_digit :: "jchar \<Rightarrow> bool" where
  "is_digit c = (48 \<le> c \<and> c \<le> 57)"

text \<open>
  The class \<^verbatim>\<open>\s\<close>, which is also what \<^verbatim>\<open>trim\<close> removes: the white space and line
  terminator code points of ECMAScript.
\<close>

definition is_space :: "jchar \<Rightarrow> bool" where
  "is_space c =
     (c \<in> {9, 10, 11, 12, 13, 32, 160, 5760, 8232, 8233, 8239, 8287, 12288, 65279}
      \<or> (8192 \<le> c \<and> c \<le> 8202))"

text \<open>The class \<^verbatim>\<open>.\<close> accepts everything but a line terminator.\<close>

definition is_dot :: "jchar \<Rightarrow> bool" where
  "is_dot c = (c \<notin> {10, 13, 8232, 8233})"

text \<open>
  Under the flag \<^verbatim>\<open>i\<close> a code unit matches a class when it canonicalizes to the same
  code unit as a member of the class. The letters of the patterns of the server are
  ASCII, a code unit from 128 on never canonicalizes to an ASCII one, and white space
  canonicalizes to itself: so a code unit matches when it, its ASCII upper case or its
  ASCII lower case is in the class.
\<close>

definition ci :: "(jchar \<Rightarrow> bool) \<Rightarrow> jchar \<Rightarrow> bool" where
  "ci p c = (p c \<or> (97 \<le> c \<and> c \<le> 122 \<and> p (c - 32)) \<or> (65 \<le> c \<and> c \<le> 90 \<and> p (c + 32)))"

definition chr :: "char \<Rightarrow> jchar \<Rightarrow> bool" where
  "chr p c = (c = of_char p)"

definition lower_alnum :: "jchar \<Rightarrow> bool" where
  "lower_alnum c = ((97 \<le> c \<and> c \<le> 122) \<or> is_digit c)"

definition one_of :: "string \<Rightarrow> jchar \<Rightarrow> bool" where
  "one_of s c = (c \<in> set (js s))"

text \<open>\<^verbatim>\<open>text.split("\n")\<close>: the pieces between line feeds; the empty string gives one empty piece.\<close>

fun split_nl :: "jstring \<Rightarrow> jstring list" where
  "split_nl [] = [[]]"
| "split_nl (c # cs) =
     (if c = 10 then [] # split_nl cs
      else (case split_nl cs of [] \<Rightarrow> [[c]] | l # ls \<Rightarrow> (c # l) # ls))"

definition trim :: "jstring \<Rightarrow> jstring" where
  "trim s = rev (dropWhile is_space (rev (dropWhile is_space s)))"

definition digits_val :: "jstring \<Rightarrow> nat" where
  "digits_val ds = foldl (\<lambda>a c. 10 * a + (c - 48)) 0 ds"

text \<open>
  \<^verbatim>\<open>parseFloat\<close> and \<^verbatim>\<open>parseInt\<close> on the strings the server gives them, which are captures
  of \<^verbatim>\<open>\d+\.?\d*\<close> and \<^verbatim>\<open>\d+\<close>: leading white space is skipped, then the longest prefix
  of digits, with one dot and more digits for \<^verbatim>\<open>parseFloat\<close>, is read; no digit at all
  gives \<^verbatim>\<open>NaN\<close>. Sign, exponent, \<^verbatim>\<open>Infinity\<close> and the prefix \<^verbatim>\<open>0x\<close> cannot occur in such a
  capture and are not modelled.
\<close>

definition parseFloat :: "jstring \<Rightarrow> jval" where
  "parseFloat s =
     (let t = dropWhile is_space s;
          ip = takeWhile is_digit t;
          fp = (case dropWhile is_digit t of
                  [] \<Rightarrow> []
                | c # cs \<Rightarrow> if c = 46 then takeWhile is_digit cs else [])
      in if ip = [] \<and> fp = [] then JNaN
         else JNum (real (digits_val (ip @ fp)) / 10 ^ length fp))"

definition parseInt :: "jstring \<Rightarrow> jval" where
  "parseInt s =
     (let ip = takeWhile is_digit (dropWhile is_space s)
      in if ip = [] then JNaN else JNum (real (digits_val ip)))"

section \<open>Regular expressions\<close>

text \<open>
  The patterns are matched as ECMAScript defines it: a backtracking matcher in
  continuation-passing style. A state is the position reached, the input that is left
  from there, and the captures; a matcher takes the continuation that has to succeed on
  the rest of the pattern. Alternatives are tried left to right, a greedy quantifier
  tries one more iteration first, a lazy one tries to stop first.
\<close>

datatype regex =
    Eps
  | Chr "jchar \<Rightarrow> bool"
  | Seq regex regex
  | Alt regex regex
  | Rep nat "nat option" bool regex
  | Group nat regex
  | Bos
  | Eos

text \<open>\<open>Rep min max greedy r\<close> is the quantified atom; \<open>max = None\<close> is no upper bound.\<close>

abbreviation Star :: "regex \<Rightarrow> regex" where
  "Star r \<equiv> Rep 0 None True r"

abbreviation Plus :: "regex \<Rightarrow> regex" where
  "Plus r \<equiv> Rep 1 None True r"

abbreviation LazyPlus :: "regex \<Rightarrow> regex" where
  "LazyPlus r \<equiv> Rep 1 None False r"

abbreviation Opt :: "regex \<Rightarrow> regex" where
  "Opt r \<equiv> Rep 0 (Some 1) True r"

abbreviation Times :: "nat \<Rightarrow> nat \<Rightarrow> regex \<Rightarrow> regex" where
  "Times a b r \<equiv> Rep a (Some b) True r"

text \<open>A literal word under the flag \<^verbatim>\<open>i\<close>.\<close>

fun ilit :: "string \<Rightarrow> regex" where
  "ilit [] = Eps"
| "ilit (c # cs) = Seq (Chr (ci (chr c))) (ilit cs)"

record mstate =
  endIndex :: nat
  rest :: jstring
  captures :: "nat \<rightharpoonup> jstring"

type_synonym continuation = "mstate \<Rightarrow> mstate option"
type_synonym matcher = "continuation \<Rightarrow> mstate \<Rightarrow> mstate option"

text \<open>
  ECMAScript's RepeatMatcher. An iteration that matches the empty string once \<open>min\<close> is
  reached is refused, so every further iteration consumes input and \<open>min\<close> plus the
  length of the input left bounds the number of iterations: that is the first argument,
  the recursion is on it, and \<open>RepeatMatcher_fuel\<close> below shows that a larger bound gives
  the same result.
\<close>

primrec RepeatMatcher :: "nat \<Rightarrow> matcher \<Rightarrow> nat \<Rightarrow> nat option \<Rightarrow> bool \<Rightarrow> matcher" where
  "RepeatMatcher 0 m mn mx greedy = (\<lambda>k x. if mn = 0 then k x else None)"
| "RepeatMatcher (Suc n) m mn mx greedy = (\<lambda>k x.
     if mx = Some 0 then k x
     else if mn \<noteq> 0 then
       m (\<lambda>y. RepeatMatcher n m (mn - 1) (map_option (\<lambda>j. j - 1) mx) greedy k y) x
     else if \<not> greedy then
       (case k x of
          Some z \<Rightarrow> Some z
        | None \<Rightarrow>
            m (\<lambda>y. if endIndex y = endIndex x then None
                    else RepeatMatcher n m 0 (map_option (\<lambda>j. j - 1) mx) greedy k y) x)
     else
       (case m (\<lambda>y. if endIndex y = endIndex x then None
                     else RepeatMatcher n m 0 (map_option (\<lambda>j. j - 1) mx) greedy k y) x of
          Some z \<Rightarrow> Some z
        | None \<Rightarrow> k x))"

primrec rmatch :: "regex \<Rightarrow> matcher" where
  "rmatch Eps = (\<lambda>k x. k x)"
| "rmatch (Chr p) = (\<lambda>k x.
     case rest x of
       [] \<Rightarrow> None
     | c # cs \<Rightarrow> if p c then k (x\<lparr>endIndex := Suc (endIndex x), rest := cs\<rparr>) else None)"
| "rmatch (Seq r1 r2) = (\<lambda>k x. rmatch r1 (rmatch r2 k) x)"
| "rmatch (Alt r1 r2) = (\<lambda>k x.
     case rmatch r1 k x of Some z \<Rightarrow> Some z | None \<Rightarrow> rmatch r2 k x)"
| "rmatch (Rep mn mx greedy r) = (\<lambda>k x.
     RepeatMatcher (mn + length (rest x)) (rmatch r) mn mx greedy k x)"
| "rmatch (Group n r) = (\<lambda>k x.
     rmatch r (\<lambda>y. k (y\<lparr>captures := (captures y)(n \<mapsto> take (endIndex y - endIndex x) (rest x))\<rparr>)) x)"
| "rmatch Bos = (\<lambda>k x. if endIndex x = 0 then k x else None)"
| "rmatch Eos = (\<lambda>k x. if rest x = [] then k x else None)"

text \<open>
  The result of \<^verbatim>\<open>exec\<close>: where the match starts and ends, the matched text
  (\<^verbatim>\<open>match[0]\<close>), the captures (\<^verbatim>\<open>match[1]\<close>, ...) and the input after the match.
\<close>

record jmatch =
  index :: nat
  lastIndex :: nat
  matched :: jstring
  groups :: "nat \<rightharpoonup> jstring"
  after :: jstring

definition match_at :: "regex \<Rightarrow> nat \<Rightarrow> jstring \<Rightarrow> jmatch option" where
  "match_at r i s =
     (case rmatch r Some \<lparr>endIndex = i, rest = s, captures = Map.empty\<rparr> of
        None \<Rightarrow> None
      | Some y \<Rightarrow> Some \<lparr>index = i, lastIndex = endIndex y, matched = take (endIndex y - i) s,
                         groups = captures y, after = rest y\<rparr>)"

text \<open>
  \<^verbatim>\<open>exec\<close> from position \<open>i\<close>, where \<open>s\<close> is the input from \<open>i\<close> on: the start positions
  are tried from left to right, the end of the input included.
\<close>

fun exec_from :: "regex \<Rightarrow> nat \<Rightarrow> jstring \<Rightarrow> jmatch option" where
  "exec_from r i [] = match_at r i []"
| "exec_from r i (c # cs) =
     (case match_at r i (c # cs) of
        Some mt \<Rightarrow> Some mt
      | None \<Rightarrow> exec_from r (Suc i) cs)"

text \<open>\<^verbatim>\<open>text.match(re)\<close> for a pattern without the flag \<^verbatim>\<open>g\<close>: the first match from 0.\<close>

definition str_match :: "jstring \<Rightarrow> regex \<Rightarrow> jmatch option" where
  "str_match text r = exec_from r 0 text"

text \<open>
  The loop \<^verbatim>\<open>while ((match = re.exec(text)) !== null)\<close> for a pattern with the flag
  \<^verbatim>\<open>g\<close>: each search starts where the last match ended. A pattern that matched the
  empty string there would be found again for ever; the loop is cut at such a match, and
  \<open>exec_all_itemPattern\<close> below shows that the pattern of the server never gets there.
\<close>

function exec_all :: "regex \<Rightarrow> nat \<Rightarrow> jstring \<Rightarrow> jmatch list" where
  "exec_all r i s =
     (case exec_from r i s of
        None \<Rightarrow> []
      | Some mt \<Rightarrow>
          if length (after mt) < length s then mt # exec_all r (lastIndex mt) (after mt)
          else [])"
  by pat_completeness auto
termination
  by (relation "measure (\<lambda>(r, i, s). length s)") auto

text \<open>The least number of code units that a match of a pattern consumes.\<close>

fun minlen :: "regex \<Rightarrow> nat" where
  "minlen Eps = 0"
| "minlen (Chr p) = 1"
| "minlen (Seq r1 r2) = minlen r1 + minlen r2"
| "minlen (Alt r1 r2) = min (minlen r1) (minlen r2)"
| "minlen (Rep mn mx greedy r) = (case mx of None \<Rightarrow> mn | Some b \<Rightarrow> min mn b) * minlen r"
| "minlen (Group n r) = minlen r"
| "minlen Bos = 0"
| "minlen Eos = 0"

text \<open>
  A state \<open>y\<close> is ahead of \<open>x\<close> when it is what a matcher started in \<open>x\<close> can hand to its
  continuation: no more input is left, and the position has moved by what was consumed.
\<close>

definition ahead :: "mstate \<Rightarrow> mstate \<Rightarrow> bool" where
  "ahead x y =
     (length (rest y) \<le> length (rest x)
      \<and> endIndex y + length (rest y) = endIndex x + length (rest x))"

section \<open>The field extractor\<close>

text \<open>\<^verbatim>\<open>/(?:invoice|inv|bill)[\s#:]*([a-z0-9\-]+)/i\<close>\<close>

definition invoicePattern :: regex where
  "invoicePattern =
     Seq (Alt (ilit ''invoice'') (Alt (ilit ''inv'') (ilit ''bill'')))
    (Seq (Star (Chr (ci (\<lambda>c. is_space c \<or> one_of ''#:'' c))))
         (Group 1 (Plus (Chr (ci (\<lambda>c. lower_alnum c \<or> chr CHR ''-'' c))))))"

text \<open>\<^verbatim>\<open>/(\d{1,2}[\/\-]\d{1,2}[\/\-]\d{2,4})|(\d{4}[\/\-]\d{1,2}[\/\-]\d{1,2})/\<close>\<close>

definition datePattern :: regex where
  "datePattern =
     Alt (Group 1 (Seq (Times 1 2 (Chr is_digit)) (Seq (Chr (one_of ''/-''))
            (Seq (Times 1 2 (Chr is_digit)) (Seq (Chr (one_of ''/-''))
                 (Times 2 4 (Chr is_digit)))))))
         (Group 2 (Seq (Times 4 4 (Chr is_digit)) (Seq (Chr (one_of ''/-''))
            (Seq (Times 1 2 (Chr is_digit)) (Seq (Chr (one_of ''/-''))
                 (Times 1 2 (Chr is_digit)))))))"

text \<open>\<^verbatim>\<open>/(?:total|amount|sum)[\s:$]*(\d+\.?\d*)/i\<close>\<close>

definition amountPattern :: regex where
  "amountPattern =
     Seq (Alt (ilit ''total'') (Alt (ilit ''amount'') (ilit ''sum'')))
    (Seq (Star (Chr (ci (\<lambda>c. is_space c \<or> one_of '':$'' c))))
         (Group 1 (Seq (Plus (Chr (ci is_digit)))
                  (Seq (Opt (Chr (ci (chr CHR ''.'')))) (Star (Chr (ci is_digit)))))))"

text \<open>\<^verbatim>\<open>/^\d+$/\<close> and \<^verbatim>\<open>/^[\/\-\s]+$/\<close>\<close>

definition numericPattern :: regex where
  "numericPattern = Seq Bos (Seq (Plus (Chr is_digit)) Eos)"

definition separatorPattern :: regex where
  "separatorPattern = Seq Bos (Seq (Plus (Chr (\<lambda>c. one_of ''/-'' c \<or> is_space c))) Eos)"

text \<open>\<^verbatim>\<open>/(.+?)\s+(\d+)\s*x?\s*\$?(\d+\.?\d*)\s*\$?(\d+\.?\d*)/g\<close>\<close>

definition decimalPattern :: regex where
  "decimalPattern = Seq (Plus (Chr is_digit)) (Seq (Opt (Chr (chr CHR ''.''))) (Star (Chr is_digit)))"

definition itemPattern :: regex where
  "itemPattern =
     Seq (Group 1 (LazyPlus (Chr is_dot)))
    (Seq (Plus (Chr is_space))
    (Seq (Group 2 (Plus (Chr is_digit)))
    (Seq (Star (Chr is_space))
    (Seq (Opt (Chr (chr CHR ''x'')))
    (Seq (Star (Chr is_space))
    (Seq (Opt (Chr (chr CHR ''$'')))
    (Seq (Group 3 decimalPattern)
    (Seq (Star (Chr is_space))
    (Seq (Opt (Chr (chr CHR ''$'')))
         (Group 4 decimalPattern))))))))))"

record billingItem =
  description :: jstring
  quantity :: jval
  unitPrice :: jval
  totalPrice :: jval

record billingData =
  invoiceNumber :: jstring
  vendor :: jstring
  date :: jstring
  totalAmount :: jval
  currency :: jstring
  items :: "billingItem list"
  rawText :: jstring
  confidence :: real

text \<open>A capture \<^verbatim>\<open>match[n]\<close> of a group that took part in the match.\<close>

definition capture :: "jmatch \<Rightarrow> nat \<Rightarrow> jstring" where
  "capture mt n = (case groups mt n of None \<Rightarrow> [] | Some s \<Rightarrow> s)"

definition item_of :: "jmatch \<Rightarrow> billingItem" where
  "item_of mt =
     \<lparr>description = trim (capture mt 1),
      quantity = parseInt (capture mt 2),
      unitPrice = parseFloat (capture mt 3),
      totalPrice = parseFloat (capture mt 4)\<rparr>"

text \<open>A line is meaningful when the filter of the vendor rule keeps it.\<close>

definition meaningful :: "jstring \<Rightarrow> bool" where
  "meaningful line =
     (length line > 3 \<and> str_match line numericPattern = None
      \<and> str_match line separatorPattern = None)"

definition extractBillingData :: "jstring \<Rightarrow> billingData" where
  "extractBillingData text =
     (let lines = filter (\<lambda>line. line \<noteq> []) (map trim (split_nl text));
          billingData =
            \<lparr>invoiceNumber = [], vendor = [], date = [], totalAmount = JNum 0,
             currency = js ''USD'', items = [], rawText = text, confidence = 0.8\<rparr>;
          billingData =
            (case str_match text invoicePattern of
               None \<Rightarrow> billingData
             | Some invoiceMatch \<Rightarrow> billingData\<lparr>invoiceNumber := capture invoiceMatch 1\<rparr>);
          billingData =
            (case str_match text datePattern of
               None \<Rightarrow> billingData
             | Some dateMatch \<Rightarrow> billingData\<lparr>date := matched dateMatch\<rparr>);
          billingData =
            (case str_match text amountPattern of
               None \<Rightarrow> billingData
             | Some amountMatch \<Rightarrow>
                 billingData\<lparr>totalAmount := parseFloat (capture amountMatch 1)\<rparr>);
          meaningfulLines = filter meaningful lines;
          billingData =
            (case meaningfulLines of
               [] \<Rightarrow> billingData
             | l # ls \<Rightarrow> billingData\<lparr>vendor := l\<rparr>)
      in billingData\<lparr>items := map item_of (exec_all itemPattern 0 text)\<rparr>)"

section \<open>The record store\<close>

text \<open>
  \<^verbatim>\<open>billingRecords\<close> is the list of records in memory; \<open>files\<close> is what is on disk in the
  upload and export directories.
\<close>

type_synonym row = "(string \<times> jval) list"

datatype content = Image | Workbook "(string \<times> row list) list"

record world =
  billingRecords :: "jobj list"
  files :: "jstring \<rightharpoonup> content"

datatype response = Json nat jobj | Download jstring jstring

text \<open>\<^verbatim>\<open>findIndex\<close>, with \<open>None\<close> for -1.\<close>

fun findIndex :: "('a \<Rightarrow> bool) \<Rightarrow> 'a list \<Rightarrow> nat option" where
  "findIndex P [] = None"
| "findIndex P (x # xs) = (if P x then Some 0 else map_option Suc (findIndex P xs))"

text \<open>The predicate \<^verbatim>\<open>(r) => r.id === id\<close>.\<close>

definition has_id :: "jstring \<Rightarrow> jobj \<Rightarrow> bool" where
  "has_id i r = (get r ''id'' = JStr i)"

subsection \<open>\<^verbatim>\<open>POST /api/upload\<close>\<close>

record upload_file =
  originalname :: jstring
  path :: jstring

definition new_record :: "jstring \<Rightarrow> upload_file \<Rightarrow> jstring \<Rightarrow> jobj" where
  "new_record imageId f uploadedAt =
     [js ''id'' \<mapsto> JStr imageId,
      js ''originalFilename'' \<mapsto> JStr (originalname f),
      js ''imagePath'' \<mapsto> JStr (path f),
      js ''status'' \<mapsto> JStr (js ''processing''),
      js ''uploadedAt'' \<mapsto> JStr uploadedAt,
      js ''extractedAt'' \<mapsto> JNull,
      js ''rawText'' \<mapsto> JNull,
      js ''invoiceNumber'' \<mapsto> JNull,
      js ''vendor'' \<mapsto> JNull,
      js ''date'' \<mapsto> JNull,
      js ''totalAmount'' \<mapsto> JNull,
      js ''currency'' \<mapsto> JStr (js ''USD''),
      js ''items'' \<mapsto> JArr [],
      js ''confidence'' \<mapsto> JNum 0]"

text \<open>
  The handler answers at once; the run of \<open>processImageAsync\<close> that it starts for
  \<open>imageId\<close> and the path of the file goes on in the background.
\<close>

definition post_upload ::
  "jobj list \<Rightarrow> upload_file option \<Rightarrow> jstring \<Rightarrow> jstring \<Rightarrow> response \<times> jobj list" where
  "post_upload records reqfile imageId uploadedAt =
     (case reqfile of
        None \<Rightarrow> (Json 400 [js ''error'' \<mapsto> JStr (js ''No image file provided'')], records)
      | Some f \<Rightarrow>
          (Json 200 [js ''id'' \<mapsto> JStr imageId,
                     js ''status'' \<mapsto> JStr (js ''processing''),
                     js ''message'' \<mapsto>
                       JStr (js ''Image uploaded successfully. Processing started.'')],
           records @ [new_record imageId f uploadedAt]))"

subsection \<open>The background run\<close>

text \<open>
  What a run meets outside the server: \<^verbatim>\<open>path.extname\<close>, whether \<^verbatim>\<open>sharp\<close> writes
  its output or throws, what \<^verbatim>\<open>Tesseract.recognize\<close> returns (text and confidence in
  percent) or \<open>None\<close> when it throws, and the clock when the record is written.
\<close>

record env =
  extname :: "jstring \<Rightarrow> jstring"
  toFile :: bool
  recognize :: "(jstring \<times> real) option"
  now :: jstring

datatype error = Error

datatype stage = Preprocess | Recognize | Extract

text \<open>\<^verbatim>\<open>s.replace(pat, rep)\<close> with a string pattern: the first occurrence is replaced.\<close>

fun replace_first :: "jstring \<Rightarrow> jstring \<Rightarrow> jstring \<Rightarrow> jstring" where
  "replace_first pat rep [] = (if pat = [] then rep else [])"
| "replace_first pat rep (c # cs) =
     (if take (length pat) (c # cs) = pat then rep @ drop (length pat) (c # cs)
      else c # replace_first pat rep cs)"

definition preprocessImage ::
  "env \<Rightarrow> (jstring \<rightharpoonup> content) \<Rightarrow> jstring \<Rightarrow> error + jstring \<times> (jstring \<rightharpoonup> content)" where
  "preprocessImage e fs imagePath =
     (let outputPath = replace_first (extname e imagePath) (js ''_processed.png'') imagePath
      in if toFile e then Inr (outputPath, fs(outputPath \<mapsto> Image)) else Inl Error)"

definition item_obj :: "billingItem \<Rightarrow> jval" where
  "item_obj it =
     JObj [(js ''description'', JStr (description it)), (js ''quantity'', quantity it),
           (js ''unitPrice'', unitPrice it), (js ''totalPrice'', totalPrice it)]"

text \<open>The properties that \<^verbatim>\<open>...billingData\<close> spreads into a record.\<close>

definition billingData_obj :: "billingData \<Rightarrow> jobj" where
  "billingData_obj b =
     [js ''invoiceNumber'' \<mapsto> JStr (invoiceNumber b),
      js ''vendor'' \<mapsto> JStr (vendor b),
      js ''date'' \<mapsto> JStr (date b),
      js ''totalAmount'' \<mapsto> totalAmount b,
      js ''currency'' \<mapsto> JStr (currency b),
      js ''items'' \<mapsto> JArr (map item_obj (items b)),
      js ''rawText'' \<mapsto> JStr (rawText b),
      js ''confidence'' \<mapsto> JNum (confidence b)]"

text \<open>The \<^verbatim>\<open>catch\<close> block: the record, if it is still found, is marked in place.\<close>

definition on_error :: "env \<Rightarrow> world \<Rightarrow> jstring \<Rightarrow> world" where
  "on_error e w recordId =
     (case findIndex (has_id recordId) (billingRecords w) of
        None \<Rightarrow> w
      | Some recordIndex \<Rightarrow>
          w\<lparr>billingRecords := (billingRecords w)
               [recordIndex := (billingRecords w ! recordIndex)
                  (js ''status'' \<mapsto> JStr (js ''error''), js ''extractedAt'' \<mapsto> JStr (now e))]\<rparr>)"

text \<open>
  A run touches the records only in its last step, after the last \<^verbatim>\<open>await\<close>, so it is
  one step on the world it finds then. The result lists the stages the run has called.
\<close>

definition processImageAsync :: "env \<Rightarrow> world \<Rightarrow> jstring \<Rightarrow> jstring \<Rightarrow> world \<times> stage list" where
  "processImageAsync e w recordId imagePath =
     (case preprocessImage e (files w) imagePath of
        Inl err \<Rightarrow> (on_error e w recordId, [Preprocess])
      | Inr (processedImagePath, fs) \<Rightarrow>
          (case recognize e of
             None \<Rightarrow> (on_error e (w\<lparr>files := fs\<rparr>) recordId, [Preprocess, Recognize])
           | Some (text, conf) \<Rightarrow>
               (let billingData = (extractBillingData text)\<lparr>confidence := conf / 100\<rparr>;
                    records =
                      (case findIndex (has_id recordId) (billingRecords w) of
                         None \<Rightarrow> billingRecords w
                       | Some recordIndex \<Rightarrow>
                           (billingRecords w)
                             [recordIndex :=
                                (billingRecords w ! recordIndex) ++ billingData_obj billingData
                                  ++ [js ''status'' \<mapsto> JStr (js ''completed''),
                                      js ''extractedAt'' \<mapsto> JStr (now e),
                                      js ''rawText'' \<mapsto> JStr text]])
                in (\<lparr>billingRecords = records,
                     files = (if fs processedImagePath \<noteq> None
                              then fs(processedImagePath := None) else fs)\<rparr>,
                    [Preprocess, Recognize, Extract]))))"

subsection \<open>\<^verbatim>\<open>PUT /api/records/:id\<close>\<close>

definition put_record ::
  "jobj list \<Rightarrow> jstring \<Rightarrow> jobj \<Rightarrow> jstring \<Rightarrow> response \<times> jobj list" where
  "put_record records rid body updatedAt =
     (case findIndex (has_id rid) records of
        None \<Rightarrow> (Json 404 [js ''error'' \<mapsto> JStr (js ''Record not found'')], records)
      | Some recordIndex \<Rightarrow>
          (let updated = (records ! recordIndex) ++ body ++ [js ''updatedAt'' \<mapsto> JStr updatedAt]
           in (Json 200 updated, records[recordIndex := updated])))"

section \<open>The export\<close>

text \<open>
  What the export takes from outside: the formatting of a date, the two clock readings
  in the file name, the export directory, and the coercion of a string, an array or an
  object to a number in \<^verbatim>\<open>length > 0\<close> (which may throw).
\<close>

record host =
  toLocaleDateString :: "jval \<Rightarrow> jstring"
  isoDate :: jstring
  dateNow :: jstring
  exportsDir :: jstring
  coerced_gt_zero :: "jval \<Rightarrow> error + bool"

text \<open>
  Reading a property of a value: \<^verbatim>\<open>null\<close> and \<^verbatim>\<open>undefined\<close> throw, an object gives its
  own property, an array and a string have a \<^verbatim>\<open>length\<close>.
\<close>

definition property :: "jval \<Rightarrow> string \<Rightarrow> error + jval" where
  "property v k =
     (case v of
        JUndef \<Rightarrow> Inl Error
      | JNull \<Rightarrow> Inl Error
      | JObj ps \<Rightarrow> Inr (case map_of ps (js k) of None \<Rightarrow> JUndef | Some x \<Rightarrow> x)
      | JArr xs \<Rightarrow> Inr (if k = ''length'' then JNum (real (length xs)) else JUndef)
      | JStr s \<Rightarrow> Inr (if k = ''length'' then JNum (real (length s)) else JUndef)
      | _ \<Rightarrow> Inr JUndef)"

text \<open>The comparison \<^verbatim>\<open>v > 0\<close>.\<close>

definition gt_zero :: "host \<Rightarrow> jval \<Rightarrow> error + bool" where
  "gt_zero h v =
     (case v of
        JUndef \<Rightarrow> Inr False
      | JNull \<Rightarrow> Inr False
      | JBool b \<Rightarrow> Inr b
      | JNum n \<Rightarrow> Inr (0 < n)
      | JNaN \<Rightarrow> Inr False
      | _ \<Rightarrow> coerced_gt_zero h v)"

definition summary_row :: "host \<Rightarrow> jobj \<Rightarrow> row" where
  "summary_row h record =
     [(''Invoice Number'', js_or (get record ''invoiceNumber'') (JStr (js ''N/A''))),
      (''Vendor'', js_or (get record ''vendor'') (JStr (js ''N/A''))),
      (''Date'', js_or (get record ''date'') (JStr (js ''N/A''))),
      (''Total Amount'', js_or (get record ''totalAmount'') (JNum 0)),
      (''Currency'', js_or (get record ''currency'') (JStr (js ''USD''))),
      (''Status'', js_or (get record ''status'') (JStr (js ''completed''))),
      (''Processed Date'', JStr (toLocaleDateString h (get record ''extractedAt'')))]"

definition item_row :: "jobj \<Rightarrow> jval \<Rightarrow> error + row" where
  "item_row record item =
     (case (property item ''description'', property item ''quantity'', property item ''unitPrice'',
            property item ''totalPrice'') of
        (Inr d, Inr q, Inr u, Inr t) \<Rightarrow>
          Inr [(''Invoice Number'', js_or (get record ''invoiceNumber'') (JStr (js ''N/A''))),
               (''Vendor'', js_or (get record ''vendor'') (JStr (js ''N/A''))),
               (''Item Description'', js_or d (JStr (js ''N/A''))),
               (''Quantity'', js_or q (JNum 0)),
               (''Unit Price'', js_or u (JNum 0)),
               (''Total Price'', js_or t (JNum 0)),
               (''Invoice Date'', js_or (get record ''date'') (JStr (js ''N/A'')))]
      | _ \<Rightarrow> Inl Error)"

fun item_rows :: "jobj \<Rightarrow> jval list \<Rightarrow> error + row list" where
  "item_rows record [] = Inr []"
| "item_rows record (item # rest_items) =
     (case item_row record item of
        Inl err \<Rightarrow> Inl err
      | Inr r \<Rightarrow> (case item_rows record rest_items of Inl err \<Rightarrow> Inl err | Inr rs \<Rightarrow> Inr (r # rs)))"

definition no_items_row :: "jobj \<Rightarrow> row" where
  "no_items_row record =
     [(''Invoice Number'', js_or (get record ''invoiceNumber'') (JStr (js ''N/A''))),
      (''Vendor'', js_or (get record ''vendor'') (JStr (js ''N/A''))),
      (''Item Description'', JStr (js ''No items extracted'')),
      (''Quantity'', JNum 0),
      (''Unit Price'', JNum 0),
      (''Total Price'', js_or (get record ''totalAmount'') (JNum 0)),
      (''Invoice Date'', js_or (get record ''date'') (JStr (js ''N/A'')))]"

text \<open>
  The body of \<^verbatim>\<open>records.forEach\<close>: the rows one record pushes. \<^verbatim>\<open>forEach\<close> on a value
  that is not an array throws.
\<close>

definition record_rows :: "host \<Rightarrow> jobj \<Rightarrow> error + row list" where
  "record_rows h record =
     (let its = get record ''items'' in
      if \<not> truthy its then Inr [no_items_row record]
      else
        (case property its ''length'' of
           Inl err \<Rightarrow> Inl err
         | Inr len \<Rightarrow>
             (case gt_zero h len of
                Inl err \<Rightarrow> Inl err
              | Inr False \<Rightarrow> Inr [no_items_row record]
              | Inr True \<Rightarrow> (case its of JArr xs \<Rightarrow> item_rows record xs | _ \<Rightarrow> Inl Error))))"

fun detailedData :: "host \<Rightarrow> jobj list \<Rightarrow> error + row list" where
  "detailedData h [] = Inr []"
| "detailedData h (record # others) =
     (case record_rows h record of
        Inl err \<Rightarrow> Inl err
      | Inr rs \<Rightarrow> (case detailedData h others of Inl err \<Rightarrow> Inl err | Inr rs' \<Rightarrow> Inr (rs @ rs')))"

record excel_file =
  filename :: jstring
  filepath :: jstring

definition generateExcelFile ::
  "host \<Rightarrow> (jstring \<rightharpoonup> content) \<Rightarrow> jobj list \<Rightarrow> error + excel_file \<times> (jstring \<rightharpoonup> content)" where
  "generateExcelFile h fs records =
     (let summaryData = map (summary_row h) records in
      case detailedData h records of
        Inl err \<Rightarrow> Inl err
      | Inr rows \<Rightarrow>
          (let workbook = [(''Summary'', summaryData), (''Line Items'', rows)];
               name = js ''billing_export_'' @ isoDate h @ js ''_'' @ dateNow h @ js ''.xlsx'';
               file = exportsDir h @ js ''/'' @ name
           in Inr (\<lparr>filename = name, filepath = file\<rparr>, fs(file \<mapsto> Workbook workbook))))"

subsection \<open>\<^verbatim>\<open>POST /api/export\<close>\<close>

definition post_export :: "host \<Rightarrow> world \<Rightarrow> response \<times> world" where
  "post_export h w =
     (let completedRecords =
            filter (\<lambda>r. get r ''status'' = JStr (js ''completed'')) (billingRecords w)
      in if length completedRecords = 0
         then (Json 400 [js ''error'' \<mapsto> JStr (js ''No completed records to export'')], w)
         else
           (case generateExcelFile h (files w) completedRecords of
              Inl err \<Rightarrow> (Json 500 [js ''error'' \<mapsto> JStr (js ''Failed to export data'')], w)
            | Inr (f, fs) \<Rightarrow> (Download (filepath f) (filename f), w\<lparr>files := fs\<rparr>)))"

section \<open>The operations as steps\<close>

text \<open>
  The requests and the ends of background runs, in the order in which they happen. A
  run is looked at when it ends; nothing in it touches a record before.
\<close>

datatype event =
    Upload upload_file jstring jstring
  | Run env jstring jstring
  | Put jstring jobj jstring

fun step :: "world \<Rightarrow> event \<Rightarrow> world" where
  "step w (Upload f imageId uploadedAt) =
     w\<lparr>billingRecords := snd (post_upload (billingRecords w) (Some f) imageId uploadedAt)\<rparr>"
| "step w (Run e recordId imagePath) = fst (processImageAsync e w recordId imagePath)"
| "step w (Put rid body updatedAt) =
     w\<lparr>billingRecords := snd (put_record (billingRecords w) rid body updatedAt)\<rparr>"

definition start :: world where
  "start = \<lparr>billingRecords = [], files = Map.empty\<rparr>"

definition run_events :: "event list \<Rightarrow> world" where
  "run_events es = foldl step start es"

text \<open>\<open>extractedAt\<close> is set when it is neither \<^verbatim>\<open>null\<close> nor missing.\<close>

definition extractedAt_set :: "jobj \<Rightarrow> bool" where
  "extractedAt_set r = (get r ''extractedAt'' \<noteq> JNull \<and> get r ''extractedAt'' \<noteq> JUndef)"

definition processing :: "jobj \<Rightarrow> bool" where
  "processing r = (get r ''status'' = JStr (js ''processing''))"

text \<open>
  A record is consistent when \<open>extractedAt\<close> is set exactly when the status is not
  \<^verbatim>\<open>processing\<close>. An update is allowed here when its body names neither \<^verbatim>\<open>status\<close> nor
  \<^verbatim>\<open>extractedAt\<close>.
\<close>

definition consistent :: "jobj \<Rightarrow> bool" where
  "consistent r = (extractedAt_set r \<longleftrightarrow> \<not> processing r)"

fun allowed :: "event \<Rightarrow> bool" where
  "allowed (Put rid body updatedAt) =
     (body (js ''status'') = None \<and> body (js ''extractedAt'') = None)"
| "allowed _ = True"

section \<open>The vendor rule in the words of the specification\<close>

text \<open>
  The specification calls a line non-trivial when it is longer than 3, not purely
  numeric and not purely punctuation or white space, and takes the first such line as
  the vendor. Punctuation is read as the ASCII punctuation characters; the lines are the
  trimmed, non-empty lines, as in the code.
\<close>

definition is_punctuation :: "jchar \<Rightarrow> bool" where
  "is_punctuation c =
     ((33 \<le> c \<and> c \<le> 47) \<or> (58 \<le> c \<and> c \<le> 64) \<or> (91 \<le> c \<and> c \<le> 96) \<or> (123 \<le> c \<and> c \<le> 126))"

definition non_trivial :: "jstring \<Rightarrow> bool" where
  "non_trivial line =
     (length line > 3 \<and> \<not> list_all is_digit line
      \<and> \<not> list_all (\<lambda>c. is_punctuation c \<or> is_space c) line)"

definition first_non_trivial_line :: "jstring \<Rightarrow> jstring" where
  "first_non_trivial_line text =
     (case filter non_trivial (filter (\<lambda>line. line \<noteq> []) (map trim (split_nl text))) of
        [] \<Rightarrow> []
      | line # others \<Rightarrow> line)"

section \<open>The rule of the total in the words of the specification\<close>

text \<open>
  A total occurs in a text where a label \<^verbatim>\<open>total\<close>, \<^verbatim>\<open>amount\<close> or \<^verbatim>\<open>sum\<close>, in any case,
  is followed by a decimal number, with nothing but white space, colons and dollar signs
  in between. \<open>strip_label\<close> gives the text after a label that stands at its start.
\<close>

fun strip_label :: "string \<Rightarrow> jstring \<Rightarrow> jstring option" where
  "strip_label [] s = Some s"
| "strip_label (c # cs) [] = None"
| "strip_label (c # cs) (x # xs) = (if ci (chr c) x then strip_label cs xs else None)"

definition starts_with_digit :: "jstring \<Rightarrow> bool" where
  "starts_with_digit s = (case s of [] \<Rightarrow> False | c # cs \<Rightarrow> is_digit c)"

definition total_at :: "jstring \<Rightarrow> bool" where
  "total_at s =
     list_ex (\<lambda>label. case strip_label label s of
                        None \<Rightarrow> False
                      | Some r \<Rightarrow>
                          starts_with_digit (dropWhile (\<lambda>c. is_space c \<or> one_of '':$'' c) r))
       [''total'', ''amount'', ''sum'']"

fun has_total :: "jstring \<Rightarrow> bool" where
  "has_total [] = total_at []"
| "has_total (c # cs) = (total_at (c # cs) \<or> has_total cs)"

section \<open>When a pattern matches\<close>

text \<open>
  A continuation succeeds by \<open>Q\<close> when it returns a match exactly on the states whose
  remaining input satisfies \<open>Q\<close>; a pattern transforms such a \<open>Q\<close> into the condition
  under which the pattern followed by the continuation matches. \<open>rep_chr\<close> is that
  condition for a quantified character class.
\<close>

definition succeeds :: "continuation \<Rightarrow> (jstring \<Rightarrow> bool) \<Rightarrow> bool" where
  "succeeds k Q = (\<forall>y. (k y \<noteq> None) = Q (rest y))"

definition transforms :: "regex \<Rightarrow> ((jstring \<Rightarrow> bool) \<Rightarrow> jstring \<Rightarrow> bool) \<Rightarrow> bool" where
  "transforms r F = (\<forall>k Q. succeeds k Q \<longrightarrow> succeeds (rmatch r k) (F Q))"

fun rep_chr :: "(jchar \<Rightarrow> bool) \<Rightarrow> nat \<Rightarrow> nat option \<Rightarrow> (jstring \<Rightarrow> bool) \<Rightarrow> jstring \<Rightarrow> bool" where
  "rep_chr p mn mx Q [] = (if mx = Some 0 then Q [] else mn = 0 \<and> Q [])"
| "rep_chr p mn mx Q (c # cs) =
     (if mx = Some 0 then Q (c # cs)
      else if mn \<noteq> 0 then p c \<and> rep_chr p (mn - 1) (map_option (\<lambda>j. j - 1) mx) Q cs
      else (p c \<and> rep_chr p 0 (map_option (\<lambda>j. j - 1) mx) Q cs) \<or> Q (c # cs))"

section \<open>Concrete inputs\<close>

definition demo_file :: upload_file where
  "demo_file = \<lparr>originalname = js ''bill.png'', path = js ''uploads/1-bill.png''\<rparr>"

text \<open>A run in which every stage succeeds, and one in which the recognition throws.\<close>

definition demo_text :: jstring where
  "demo_text = js ''Total: 5''"

definition demo_env :: env where
  "demo_env =
     \<lparr>extname = (\<lambda>p. js ''.png''), toFile = True,
      recognize = Some (demo_text, 90), now = js ''2024-03-01T10:00:05.000Z''\<rparr>"

definition ocr_fails_env :: env where
  "ocr_fails_env =
     \<lparr>extname = (\<lambda>p. js ''.png''), toFile = True,
      recognize = None, now = js ''2024-03-01T10:00:05.000Z''\<rparr>"

definition demo_host :: host where
  "demo_host =
     \<lparr>toLocaleDateString = (\<lambda>v. js ''3/1/2024''), isoDate = js ''2024-03-01'',
      dateNow = js ''1709287205000'', exportsDir = js ''exports'',
      coerced_gt_zero = (\<lambda>v. Inr False)\<rparr>"

definition upload_event :: event where
  "upload_event = Upload demo_file (js ''id-1'') (js ''2024-03-01T10:00:00.000Z'')"

text \<open>The store after an upload and a run that succeeds on the text \<^verbatim>\<open>Total: 5\<close>.\<close>

definition completed_world :: world where
  "completed_world = run_events [upload_event, Run demo_env (js ''id-1'') (js ''uploads/1-bill.png'')]"

section \<open>Running the matcher on a given input\<close>

text \<open>
  The equations of the matcher, stated for a state that is written out, so that the
  simplifier runs a pattern on a concrete text step by step.
\<close>

declare rmatch.simps [simp del] RepeatMatcher.simps [simp del] exec_all.simps [simp del]

lemma rmatch_Chr_Cons:
  "rmatch (Chr p) k \<lparr>endIndex = e, rest = c # cs, captures = g\<rparr> =
     (if p c then k \<lparr>endIndex = Suc e, rest = cs, captures = g\<rparr> else None)"
  by (simp add: rmatch.simps)

lemma rmatch_Chr_Nil: "rmatch (Chr p) k \<lparr>endIndex = e, rest = [], captures = g\<rparr> = None"
  by (simp add: rmatch.simps)

lemma rmatch_Eps: "rmatch Eps k x = k x"
  by (simp add: rmatch.simps)

lemma rmatch_Seq: "rmatch (Seq r1 r2) k x = rmatch r1 (rmatch r2 k) x"
  by (simp add: rmatch.simps)

lemma rmatch_Alt:
  "rmatch (Alt r1 r2) k x = (case rmatch r1 k x of Some z \<Rightarrow> Some z | None \<Rightarrow> rmatch r2 k x)"
  by (simp add: rmatch.simps)

lemma rmatch_Rep:
  "rmatch (Rep mn mx greedy r) k \<lparr>endIndex = e, rest = s, captures = g\<rparr> =
     RepeatMatcher (mn + length s) (rmatch r) mn mx greedy k \<lparr>endIndex = e, rest = s, captures = g\<rparr>"
  by (simp add: rmatch.simps)

lemma rmatch_Group:
  "rmatch (Group n r) k \<lparr>endIndex = e, rest = s, captures = g\<rparr> =
     rmatch r (\<lambda>y. k (y\<lparr>captures := (captures y)(n \<mapsto> take (endIndex y - e) s)\<rparr>))
       \<lparr>endIndex = e, rest = s, captures = g\<rparr>"
  by (simp add: rmatch.simps)

lemma rmatch_Bos:
  "rmatch Bos k \<lparr>endIndex = e, rest = s, captures = g\<rparr> =
     (if e = 0 then k \<lparr>endIndex = e, rest = s, captures = g\<rparr> else None)"
  by (simp add: rmatch.simps)

lemma rmatch_Eos:
  "rmatch Eos k \<lparr>endIndex = e, rest = s, captures = g\<rparr> =
     (if s = [] then k \<lparr>endIndex = e, rest = s, captures = g\<rparr> else None)"
  by (simp add: rmatch.simps)

lemma RepeatMatcher_step:
  "RepeatMatcher n m mn mx greedy k \<lparr>endIndex = e, rest = s, captures = g\<rparr> =
     (if n = 0 then (if mn = 0 then k \<lparr>endIndex = e, rest = s, captures = g\<rparr> else None)
      else if mx = Some 0 then k \<lparr>endIndex = e, rest = s, captures = g\<rparr>
      else if mn \<noteq> 0 then
        m (RepeatMatcher (n - 1) m (mn - 1) (map_option (\<lambda>j. j - 1) mx) greedy k)
          \<lparr>endIndex = e, rest = s, captures = g\<rparr>
      else if \<not> greedy then
        (case k \<lparr>endIndex = e, rest = s, captures = g\<rparr> of
           Some z \<Rightarrow> Some z
         | None \<Rightarrow>
             m (\<lambda>y. if endIndex y = e then None
                     else RepeatMatcher (n - 1) m 0 (map_option (\<lambda>j. j - 1) mx) greedy k y)
               \<lparr>endIndex = e, rest = s, captures = g\<rparr>)
      else
        (case m (\<lambda>y. if endIndex y = e then None
                      else RepeatMatcher (n - 1) m 0 (map_option (\<lambda>j. j - 1) mx) greedy k y)
                \<lparr>endIndex = e, rest = s, captures = g\<rparr> of
           Some z \<Rightarrow> Some z
         | None \<Rightarrow> k \<lparr>endIndex = e, rest = s, captures = g\<rparr>))"
  by (cases n) (simp_all add: RepeatMatcher.simps cong: option.case_cong if_cong)

lemmas rmatch_eval =
  rmatch_Chr_Cons rmatch_Chr_Nil rmatch_Eps rmatch_Seq rmatch_Alt rmatch_Rep rmatch_Group
  rmatch_Bos rmatch_Eos RepeatMatcher_step

lemmas class_eval =
  js_def ci_def chr_def is_space_def is_dot_def one_of_def lower_alnum_def is_digit_def

lemmas match_eval = rmatch_eval class_eval str_match_def match_at_def capture_def

text \<open>One step of a quantifier, and of a character class, in any state.\<close>

lemma RepeatMatcher_Suc:
  "RepeatMatcher (Suc n) m mn mx greedy k x =
     (if mx = Some 0 then k x
      else if mn \<noteq> 0 then
        m (\<lambda>y. RepeatMatcher n m (mn - 1) (map_option (\<lambda>j. j - 1) mx) greedy k y) x
      else if \<not> greedy then
        (case k x of
           Some z \<Rightarrow> Some z
         | None \<Rightarrow>
             m (\<lambda>y. if endIndex y = endIndex x then None
                     else RepeatMatcher n m 0 (map_option (\<lambda>j. j - 1) mx) greedy k y) x)
      else
        (case m (\<lambda>y. if endIndex y = endIndex x then None
                      else RepeatMatcher n m 0 (map_option (\<lambda>j. j - 1) mx) greedy k y) x of
           Some z \<Rightarrow> Some z
         | None \<Rightarrow> k x))"
  by (simp add: RepeatMatcher.simps)

lemma rmatch_Chr_step:
  "rest x = c # cs \<Longrightarrow>
   rmatch (Chr p) d x = (if p c then d (x\<lparr>endIndex := Suc (endIndex x), rest := cs\<rparr>) else None)"
  by (simp add: rmatch.simps)

section \<open>The bound on the iterations of a quantifier is never reached\<close>

text \<open>
  A matcher looks at its continuation only on states ahead of its own, and it returns
  a match only through its continuation. So the counter of \<open>RepeatMatcher\<close> can be
  raised without any change of the result: the quantifier stops by itself.
\<close>

lemma ahead_refl: "ahead x x"
  by (simp add: ahead_def)

lemma ahead_trans: "ahead x y \<Longrightarrow> ahead y z \<Longrightarrow> ahead x z"
  by (auto simp: ahead_def)

lemma RepeatMatcher_local:
  assumes body: "\<And>k k' x. (\<And>y. ahead x y \<Longrightarrow> k y = k' y) \<Longrightarrow> m k x = m k' x"
  shows "(\<And>y. ahead x y \<Longrightarrow> k y = k' y) \<Longrightarrow>
         RepeatMatcher n m mn mx greedy k x = RepeatMatcher n m mn mx greedy k' x"
proof (induction n arbitrary: mn mx x)
  case 0
  from "0.prems" [OF ahead_refl] show ?case
    by (simp add: RepeatMatcher.simps)
next
  case (Suc n)
  have kx: "k x = k' x"
    by (rule Suc.prems) (rule ahead_refl)
  have inner: "RepeatMatcher n m a b greedy k y = RepeatMatcher n m a b greedy k' y"
    if "ahead x y" for a b y
    by (rule Suc.IH) (rule Suc.prems, rule ahead_trans [OF that])
  have "m (\<lambda>y. RepeatMatcher n m a b greedy k y) x = m (\<lambda>y. RepeatMatcher n m a b greedy k' y) x"
    for a b
    by (rule body) (rule inner)
  moreover have
    "m (\<lambda>y. if endIndex y = endIndex x then None else RepeatMatcher n m a b greedy k y) x
       = m (\<lambda>y. if endIndex y = endIndex x then None else RepeatMatcher n m a b greedy k' y) x"
    for a b
    by (rule body) (simp add: inner)
  ultimately show ?case
    by (simp add: RepeatMatcher_Suc kx cong: option.case_cong)
qed

lemma rmatch_local:
  "(\<And>y. ahead x y \<Longrightarrow> k y = k' y) \<Longrightarrow> rmatch r k x = rmatch r k' x"
proof (induction r arbitrary: k k' x)
  case Eps
  from Eps.prems [OF ahead_refl] show ?case by (simp add: rmatch.simps)
next
  case (Chr p)
  show ?case
  proof (cases "rest x")
    case Nil
    then show ?thesis by (simp add: rmatch.simps)
  next
    case (Cons c cs)
    have "ahead x (x\<lparr>endIndex := Suc (endIndex x), rest := cs\<rparr>)"
      using Cons by (simp add: ahead_def)
    from Chr.prems [OF this] Cons show ?thesis
      by (simp add: rmatch_Chr_step)
  qed
next
  case (Seq r1 r2)
  have "rmatch r1 (rmatch r2 k) x = rmatch r1 (rmatch r2 k') x"
  proof (rule Seq.IH(1))
    fix y
    assume y: "ahead x y"
    show "rmatch r2 k y = rmatch r2 k' y"
      by (rule Seq.IH(2)) (rule Seq.prems, rule ahead_trans [OF y])
  qed
  then show ?case by (simp add: rmatch.simps)
next
  case (Alt r1 r2)
  have "rmatch r1 k x = rmatch r1 k' x" "rmatch r2 k x = rmatch r2 k' x"
    by (rule Alt.IH, rule Alt.prems, assumption)+
  then show ?case by (simp add: rmatch.simps cong: option.case_cong)
next
  case (Rep mn mx greedy r)
  have "RepeatMatcher (mn + length (rest x)) (rmatch r) mn mx greedy k x
          = RepeatMatcher (mn + length (rest x)) (rmatch r) mn mx greedy k' x"
    by (rule RepeatMatcher_local) (rule Rep.IH, assumption, rule Rep.prems)
  then show ?case by (simp add: rmatch.simps)
next
  case (Group n r)
  have "rmatch r (\<lambda>y. k (y\<lparr>captures := (captures y)(n \<mapsto> take (endIndex y - endIndex x) (rest x))\<rparr>)) x
          = rmatch r (\<lambda>y. k' (y\<lparr>captures := (captures y)(n \<mapsto> take (endIndex y - endIndex x) (rest x))\<rparr>)) x"
    by (rule Group.IH) (rule Group.prems, simp add: ahead_def)
  then show ?case by (simp add: rmatch.simps)
next
  case Bos
  from Bos.prems [OF ahead_refl] show ?case by (simp add: rmatch.simps)
next
  case Eos
  from Eos.prems [OF ahead_refl] show ?case by (simp add: rmatch.simps)
qed

lemma RepeatMatcher_strict:
  assumes body: "\<And>x. m (\<lambda>y. None) x = None"
  shows "RepeatMatcher n m mn mx greedy (\<lambda>y. None) x = None"
proof (induction n arbitrary: mn mx x)
  case 0
  show ?case by (simp add: RepeatMatcher.simps)
next
  case (Suc n)
  have d: "RepeatMatcher n m a b greedy (\<lambda>y. None) = (\<lambda>y. None)" for a b
    by (rule ext) (rule Suc.IH)
  have d': "(\<lambda>y. if endIndex y = endIndex x then None
                 else RepeatMatcher n m a b greedy (\<lambda>y. None) y) = (\<lambda>y. None)" for a b
    by (rule ext) (simp add: Suc.IH)
  show ?case
    unfolding RepeatMatcher_Suc d d' by (simp add: body)
qed

lemma rmatch_strict: "rmatch r (\<lambda>y. None) x = None"
proof (induction r arbitrary: x)
  case (Seq r1 r2)
  have "rmatch r2 (\<lambda>y. None) = (\<lambda>y. None)"
    by (rule ext) (rule Seq.IH(2))
  with Seq.IH(1) show ?case by (simp add: rmatch.simps)
next
  case (Rep mn mx greedy r)
  from RepeatMatcher_strict [of "rmatch r", OF Rep.IH] show ?case
    by (simp add: rmatch.simps)
next
  case (Group n r)
  then show ?case by (simp add: rmatch.simps)
next
  case (Chr p)
  show ?case by (simp add: rmatch.simps split: list.splits)
qed (simp_all add: rmatch.simps)

lemma RepeatMatcher_more_fuel:
  "mn + length (rest x) \<le> n \<Longrightarrow>
   RepeatMatcher (Suc n) (rmatch r) mn mx greedy k x = RepeatMatcher n (rmatch r) mn mx greedy k x"
proof (induction n arbitrary: mn mx x)
  case 0
  then have mn: "mn = 0" and x: "rest x = []" by simp_all
  let ?d = "\<lambda>y. if endIndex y = endIndex x then None
                 else RepeatMatcher 0 (rmatch r) 0 (map_option (\<lambda>j. j - 1) mx) greedy k y"
  have "rmatch r ?d x = rmatch r (\<lambda>y. None) x"
    by (rule rmatch_local) (use x in \<open>auto simp: ahead_def\<close>)
  then have "rmatch r ?d x = None"
    by (simp add: rmatch_strict)
  with mn show ?case
    by (simp add: RepeatMatcher_Suc [of 0] RepeatMatcher.simps(1) split: option.splits)
next
  case (Suc n)
  let ?dec = "map_option (\<lambda>j. j - 1) mx"
  show ?case
  proof (cases "mn = 0")
    case False
    have "rmatch r (\<lambda>y. RepeatMatcher (Suc n) (rmatch r) (mn - 1) ?dec greedy k y) x
            = rmatch r (\<lambda>y. RepeatMatcher n (rmatch r) (mn - 1) ?dec greedy k y) x"
    proof (rule rmatch_local)
      fix y
      assume "ahead x y"
      with Suc.prems False have "(mn - 1) + length (rest y) \<le> n"
        unfolding ahead_def by arith
      then show "RepeatMatcher (Suc n) (rmatch r) (mn - 1) ?dec greedy k y
                   = RepeatMatcher n (rmatch r) (mn - 1) ?dec greedy k y"
        by (rule Suc.IH)
    qed
    with False show ?thesis
      by (simp add: RepeatMatcher_Suc [of "Suc n" "rmatch r" mn mx greedy k x]
            RepeatMatcher_Suc [of n "rmatch r" mn mx greedy k x])
  next
    case True
    have "rmatch r (\<lambda>y. if endIndex y = endIndex x then None
                         else RepeatMatcher (Suc n) (rmatch r) 0 ?dec greedy k y) x
            = rmatch r (\<lambda>y. if endIndex y = endIndex x then None
                             else RepeatMatcher n (rmatch r) 0 ?dec greedy k y) x"
    proof (rule rmatch_local)
      fix y
      assume y: "ahead x y"
      show "(if endIndex y = endIndex x then None
             else RepeatMatcher (Suc n) (rmatch r) 0 ?dec greedy k y)
            = (if endIndex y = endIndex x then None
               else RepeatMatcher n (rmatch r) 0 ?dec greedy k y)"
      proof (cases "endIndex y = endIndex x")
        case True
        then show ?thesis by simp
      next
        case False
        with y Suc.prems True have "0 + length (rest y) \<le> n"
          unfolding ahead_def by arith
        from Suc.IH [OF this] False show ?thesis by simp
      qed
    qed
    with True show ?thesis
      by (simp add: RepeatMatcher_Suc [of "Suc n" "rmatch r" 0 mx greedy k x]
            RepeatMatcher_Suc [of n "rmatch r" 0 mx greedy k x] cong: option.case_cong)
  qed
qed

lemma RepeatMatcher_fuel:
  "RepeatMatcher (mn + length (rest x) + extra) (rmatch r) mn mx greedy k x
     = rmatch (Rep mn mx greedy r) k x"
proof (induction extra)
  case 0
  show ?case by (simp add: rmatch.simps)
next
  case (Suc extra)
  have "mn + length (rest x) \<le> mn + length (rest x) + extra" by simp
  from RepeatMatcher_more_fuel [OF this] Suc show ?case by simp
qed

section \<open>A match consumes input\<close>

lemma RepeatMatcher_consumes:
  assumes body: "\<And>k x z. m k x = Some z \<Longrightarrow>
                   \<exists>y. k y = Some z \<and> length (rest y) + c \<le> length (rest x)"
  shows "RepeatMatcher n m mn mx greedy k x = Some z \<Longrightarrow>
         \<exists>y. k y = Some z
            \<and> length (rest y) + (case mx of None \<Rightarrow> mn | Some b \<Rightarrow> min mn b) * c \<le> length (rest x)"
proof (induction n arbitrary: mn mx x)
  case 0
  then show ?case
    by (cases mx) (auto simp: RepeatMatcher.simps split: if_splits)
next
  case (Suc n)
  let ?dec = "map_option (\<lambda>j. j - 1) mx"
  show ?case
  proof (cases "mx = Some 0")
    case True
    with Suc.prems show ?thesis
      by (auto simp: RepeatMatcher.simps)
  next
    case not0: False
    show ?thesis
    proof (cases "mn = 0")
      case False
      with Suc.prems not0 have
        "m (\<lambda>y. RepeatMatcher n m (mn - 1) ?dec greedy k y) x = Some z"
        by (simp add: RepeatMatcher.simps)
      from body [OF this] obtain y where
        y: "RepeatMatcher n m (mn - 1) ?dec greedy k y = Some z"
           "length (rest y) + c \<le> length (rest x)"
        by blast
      from Suc.IH [OF y(1)] obtain y' where
        y': "k y' = Some z"
            "length (rest y') + (case ?dec of None \<Rightarrow> mn - 1 | Some b \<Rightarrow> min (mn - 1) b) * c
               \<le> length (rest y)"
        by blast
      have "(case mx of None \<Rightarrow> mn | Some b \<Rightarrow> min mn b)
              = Suc (case ?dec of None \<Rightarrow> mn - 1 | Some b \<Rightarrow> min (mn - 1) b)"
        using False not0 by (cases mx) auto
      with y(2) y' show ?thesis
        by (auto intro!: exI [of _ y'])
    next
      case True
      from Suc.prems not0 True consider
        "k x = Some z"
        | "m (\<lambda>y. if endIndex y = endIndex x then None
                   else RepeatMatcher n m 0 ?dec greedy k y) x = Some z"
        by (auto simp: RepeatMatcher.simps split: if_splits option.splits)
      then show ?thesis
      proof cases
        case 1
        with True show ?thesis by (cases mx) auto
      next
        case 2
        from body [OF 2] obtain y where
          y: "RepeatMatcher n m 0 ?dec greedy k y = Some z" "length (rest y) \<le> length (rest x)"
          by (auto split: if_splits)
        from Suc.IH [OF y(1)] obtain y' where "k y' = Some z" "length (rest y') \<le> length (rest y)"
          by (cases mx) auto
        with y(2) True show ?thesis
          by (cases mx) (auto intro!: exI [of _ y'])
      qed
    qed
  qed
qed

lemma rmatch_consumes:
  "rmatch r k x = Some z \<Longrightarrow>
   \<exists>y. k y = Some z \<and> length (rest y) + minlen r \<le> length (rest x)"
proof (induction r arbitrary: k x z)
  case Eps
  then show ?case by (auto simp: rmatch.simps)
next
  case (Chr p)
  then show ?case
    by (auto simp: rmatch.simps split: list.splits if_splits)
next
  case (Seq r1 r2)
  from Seq.prems have "rmatch r1 (rmatch r2 k) x = Some z"
    by (simp add: rmatch.simps)
  from Seq.IH(1) [OF this] obtain y where
    y: "rmatch r2 k y = Some z" "length (rest y) + minlen r1 \<le> length (rest x)"
    by blast
  from Seq.IH(2) [OF y(1)] obtain y' where
    "k y' = Some z" "length (rest y') + minlen r2 \<le> length (rest y)"
    by blast
  with y(2) show ?case
    by (auto intro!: exI [of _ y'])
next
  case (Alt r1 r2)
  from Alt.prems consider "rmatch r1 k x = Some z" | "rmatch r2 k x = Some z"
    by (auto simp: rmatch.simps split: option.splits)
  then show ?case
  proof cases
    case 1
    from Alt.IH(1) [OF 1] show ?thesis by auto
  next
    case 2
    from Alt.IH(2) [OF 2] show ?thesis by auto
  qed
next
  case (Rep mn mx greedy r)
  from Rep.prems have
    "RepeatMatcher (mn + length (rest x)) (rmatch r) mn mx greedy k x = Some z"
    by (simp add: rmatch.simps)
  from RepeatMatcher_consumes [of "rmatch r" "minlen r", OF Rep.IH this] show ?case
    by simp
next
  case (Group n r)
  from Group.prems have
    "rmatch r (\<lambda>y. k (y\<lparr>captures := (captures y)(n \<mapsto> take (endIndex y - endIndex x) (rest x))\<rparr>)) x
       = Some z"
    by (simp add: rmatch.simps)
  from Group.IH [OF this] show ?case
    by (auto intro: exI [of _ "y\<lparr>captures := c\<rparr>" for y c])
next
  case Bos
  then show ?case by (auto simp: rmatch.simps split: if_splits)
next
  case Eos
  then show ?case by (auto simp: rmatch.simps split: if_splits)
qed

lemma match_at_consumes:
  "match_at r i s = Some mt \<Longrightarrow> length (after mt) + minlen r \<le> length s"
proof -
  assume "match_at r i s = Some mt"
  then obtain y where
    y: "rmatch r Some \<lparr>endIndex = i, rest = s, captures = Map.empty\<rparr> = Some y" "after mt = rest y"
    by (auto simp: match_at_def split: option.splits)
  from rmatch_consumes [OF y(1)] y(2) show ?thesis by auto
qed

lemma exec_from_consumes:
  "exec_from r i s = Some mt \<Longrightarrow> length (after mt) + minlen r \<le> length s"
proof (induction s arbitrary: i)
  case Nil
  then show ?case using match_at_consumes [of r i "[]" mt] by simp
next
  case (Cons c cs)
  show ?case
  proof (cases "match_at r i (c # cs)")
    case None
    with Cons.prems have "exec_from r (Suc i) cs = Some mt" by simp
    from Cons.IH [OF this] show ?thesis by simp
  next
    case (Some a)
    with Cons.prems match_at_consumes [of r i "c # cs" mt] show ?thesis by simp
  qed
qed

text \<open>
  The pattern of the line items matches at least five code units, so the loop over its
  matches is never cut: it goes on after every match.
\<close>

lemma exec_all_itemPattern:
  "exec_all itemPattern i s =
     (case exec_from itemPattern i s of
        None \<Rightarrow> []
      | Some mt \<Rightarrow> mt # exec_all itemPattern (lastIndex mt) (after mt))"
proof (cases "exec_from itemPattern i s")
  case None
  then show ?thesis by (simp add: exec_all.simps)
next
  case (Some mt)
  have "minlen itemPattern = 5"
    by (simp add: itemPattern_def decimalPattern_def)
  with exec_from_consumes [OF Some] have "length (after mt) < length s" by simp
  with Some show ?thesis by (simp add: exec_all.simps)
qed

section \<open>When the pattern of the total matches\<close>

lemma succeeds_Some: "succeeds Some (\<lambda>s. True)"
  by (simp add: succeeds_def)

lemma transforms_Eps: "transforms Eps (\<lambda>Q. Q)"
  by (simp add: transforms_def succeeds_def rmatch.simps)

lemma transforms_Chr:
  "transforms (Chr p) (\<lambda>Q s. case s of [] \<Rightarrow> False | c # cs \<Rightarrow> p c \<and> Q cs)"
  by (auto simp: transforms_def succeeds_def rmatch.simps split: list.splits)

lemma transforms_Seq:
  "transforms r1 F1 \<Longrightarrow> transforms r2 F2 \<Longrightarrow> transforms (Seq r1 r2) (\<lambda>Q. F1 (F2 Q))"
  by (simp add: transforms_def rmatch.simps)

lemma transforms_Alt:
  assumes "transforms r1 F1" "transforms r2 F2"
  shows "transforms (Alt r1 r2) (\<lambda>Q s. F1 Q s \<or> F2 Q s)"
  unfolding transforms_def
proof (intro allI impI)
  fix k Q
  assume k: "succeeds k Q"
  from assms k have s: "succeeds (rmatch r1 k) (F1 Q)" "succeeds (rmatch r2 k) (F2 Q)"
    by (simp_all add: transforms_def)
  show "succeeds (rmatch (Alt r1 r2) k) (\<lambda>s. F1 Q s \<or> F2 Q s)"
    unfolding succeeds_def
  proof
    fix y :: mstate
    from s have "(rmatch r1 k y \<noteq> None) = F1 Q (rest y)" "(rmatch r2 k y \<noteq> None) = F2 Q (rest y)"
      by (simp_all add: succeeds_def)
    then show "(rmatch (Alt r1 r2) k y \<noteq> None) = (F1 Q (rest y) \<or> F2 Q (rest y))"
      by (cases "rmatch r1 k y") (auto simp: rmatch.simps)
  qed
qed

lemma transforms_Group:
  assumes "transforms r F"
  shows "transforms (Group n r) F"
  unfolding transforms_def
proof (intro allI impI)
  fix k Q
  assume k: "succeeds k Q"
  show "succeeds (rmatch (Group n r) k) (F Q)"
    unfolding succeeds_def
  proof
    fix x :: mstate
    let ?k = "\<lambda>y. k (y\<lparr>captures := (captures y)(n \<mapsto> take (endIndex y - endIndex x) (rest x))\<rparr>)"
    from k have "succeeds ?k Q"
      by (simp add: succeeds_def)
    with assms have "succeeds (rmatch r ?k) (F Q)"
      by (simp add: transforms_def)
    then show "(rmatch (Group n r) k x \<noteq> None) = F Q (rest x)"
      by (simp add: succeeds_def rmatch.simps)
  qed
qed

lemma RepeatMatcher_Chr:
  assumes k: "succeeds k Q"
  shows "mn + length (rest x) \<le> n \<Longrightarrow>
         (RepeatMatcher n (rmatch (Chr p)) mn mx greedy k x \<noteq> None) = rep_chr p mn mx Q (rest x)"
proof (induction n arbitrary: mn mx x)
  case 0
  with k show ?case
    by (simp add: RepeatMatcher.simps succeeds_def)
next
  case (Suc n)
  from k have kx: "(k x \<noteq> None) = Q (rest x)"
    by (simp add: succeeds_def)
  show ?case
  proof (cases "rest x")
    case Nil
    with kx show ?thesis
      by (auto simp: RepeatMatcher_Suc rmatch.simps split: option.splits)
  next
    case (Cons c cs)
    let ?y = "x\<lparr>endIndex := Suc (endIndex x), rest := cs\<rparr>"
    have "(mn - 1) + length (rest ?y) \<le> n" "0 + length (rest ?y) \<le> n"
      using Suc.prems Cons by simp_all
    from this [THEN Suc.IH] have
      ih: "\<And>mx. (RepeatMatcher n (rmatch (Chr p)) (mn - Suc 0) mx greedy k ?y \<noteq> None)
                   = rep_chr p (mn - Suc 0) mx Q cs"
          "\<And>mx. (RepeatMatcher n (rmatch (Chr p)) 0 mx greedy k ?y \<noteq> None)
                   = rep_chr p 0 mx Q cs"
      by simp_all
    show ?thesis
    proof (cases "mx = Some 0")
      case True
      with kx Cons show ?thesis
        by (simp add: RepeatMatcher_Suc)
    next
      case nz: False
      show ?thesis
      proof (cases "mn = 0")
        case False
        with nz ih(1) [of "map_option (\<lambda>j. j - Suc 0) mx"] Cons show ?thesis
          by (simp add: RepeatMatcher_Suc rmatch_Chr_step [OF Cons])
      next
        case True
        with nz ih(2) [of "map_option (\<lambda>j. j - Suc 0) mx"] kx Cons show ?thesis
          by (cases greedy)
             (auto simp: RepeatMatcher_Suc rmatch_Chr_step [OF Cons] split: option.splits)
      qed
    qed
  qed
qed

lemma transforms_Rep_Chr: "transforms (Rep mn mx greedy (Chr p)) (rep_chr p mn mx)"
  unfolding transforms_def succeeds_def
proof (intro allI impI)
  fix k :: continuation and Q :: "jstring \<Rightarrow> bool" and x :: mstate
  assume "\<forall>y. (k y \<noteq> None) = Q (rest y)"
  then have "succeeds k Q" by (simp add: succeeds_def)
  from RepeatMatcher_Chr [OF this, of mn x "mn + length (rest x)" p mx greedy]
  show "(rmatch (Rep mn mx greedy (Chr p)) k x \<noteq> None) = rep_chr p mn mx Q (rest x)"
    by (simp add: rmatch.simps)
qed

lemma transforms_ilit:
  "transforms (ilit w) (\<lambda>Q s. case strip_label w s of None \<Rightarrow> False | Some r \<Rightarrow> Q r)"
proof (induction w)
  case Nil
  show ?case using transforms_Eps by simp
next
  case (Cons c w)
  have "(\<lambda>Q s. case strip_label (c # w) s of None \<Rightarrow> False | Some r \<Rightarrow> Q r)
          = (\<lambda>Q. (\<lambda>Q s. case s of [] \<Rightarrow> False | x # xs \<Rightarrow> ci (chr c) x \<and> Q xs)
                   ((\<lambda>Q s. case strip_label w s of None \<Rightarrow> False | Some r \<Rightarrow> Q r) Q))"
    by (auto simp: fun_eq_iff split: list.splits)
  with transforms_Seq [OF transforms_Chr Cons.IH, of "ci (chr c)"] show ?case
    by simp
qed

lemma rep_chr_True: "(\<And>s. Q s) \<Longrightarrow> rep_chr p 0 mx Q s"
  by (induction s arbitrary: mx) simp_all

lemma rep_chr_plus_True:
  "(\<And>s. Q s) \<Longrightarrow> rep_chr p (Suc 0) None Q s = (case s of [] \<Rightarrow> False | c # cs \<Rightarrow> p c)"
  by (cases s) (simp_all add: rep_chr_True)

lemma rep_chr_star:
  assumes "\<And>c cs. Q (c # cs) \<Longrightarrow> \<not> p c"
  shows "rep_chr p 0 None Q s = Q (dropWhile p s)"
  using assms by (induction s) auto

lemma ci_is_digit: "ci is_digit = is_digit"
  by (auto simp: fun_eq_iff ci_def is_digit_def)

lemma ci_separator:
  "ci (\<lambda>c. is_space c \<or> one_of '':$'' c) = (\<lambda>c. is_space c \<or> one_of '':$'' c)"
  by (auto simp: fun_eq_iff ci_def is_space_def one_of_def js_def)

lemma amountPattern_matches:
  "(rmatch amountPattern Some x \<noteq> None) = total_at (rest x)"
proof -
  let ?sep = "\<lambda>c. is_space c \<or> one_of '':$'' c"
  let ?L = "\<lambda>w Q s. case strip_label w s of None \<Rightarrow> False | Some r \<Rightarrow> Q r"
  let ?number = "\<lambda>Q. rep_chr (ci is_digit) 1 None
                        (rep_chr (ci (chr CHR ''.'')) 0 (Some 1) (rep_chr (ci is_digit) 0 None Q))"
  have "transforms amountPattern
          (\<lambda>Q s. (?L ''total'' (rep_chr (ci ?sep) 0 None (?number Q)) s
                 \<or> ?L ''amount'' (rep_chr (ci ?sep) 0 None (?number Q)) s
                 \<or> ?L ''sum'' (rep_chr (ci ?sep) 0 None (?number Q)) s))"
    unfolding amountPattern_def
    using transforms_Seq [OF transforms_Alt [OF transforms_ilit [of "''total''"]
            transforms_Alt [OF transforms_ilit [of "''amount''"] transforms_ilit [of "''sum''"]]]
          transforms_Seq [OF transforms_Rep_Chr [of 0 None True "ci ?sep"]
            transforms_Group [OF transforms_Seq [OF transforms_Rep_Chr [of 1 None True "ci is_digit"]
              transforms_Seq [OF transforms_Rep_Chr [of 0 "Some 1" True "ci (chr CHR ''.'')"]
                transforms_Rep_Chr [of 0 None True "ci is_digit"]]], of 1]]]
    by simp
  with succeeds_Some have matches:
    "succeeds (rmatch amountPattern Some)
       (\<lambda>s. (?L ''total'' (rep_chr (ci ?sep) 0 None (?number (\<lambda>s. True))) s
            \<or> ?L ''amount'' (rep_chr (ci ?sep) 0 None (?number (\<lambda>s. True))) s
            \<or> ?L ''sum'' (rep_chr (ci ?sep) 0 None (?number (\<lambda>s. True))) s))"
    unfolding transforms_def by blast
  have number: "?number (\<lambda>s. True) = starts_with_digit"
    by (auto simp: fun_eq_iff rep_chr_True rep_chr_plus_True starts_with_digit_def ci_is_digit
             split: list.splits)
  have separators:
    "rep_chr (ci ?sep) 0 None starts_with_digit = (\<lambda>s. starts_with_digit (dropWhile ?sep s))"
  proof -
    have "rep_chr ?sep 0 None starts_with_digit s = starts_with_digit (dropWhile ?sep s)" for s
      by (rule rep_chr_star)
         (auto simp: starts_with_digit_def is_digit_def is_space_def one_of_def js_def)
    then show ?thesis
      by (simp add: fun_eq_iff ci_separator)
  qed
  have "total_at =
          (\<lambda>s. ?L ''total'' (\<lambda>s. starts_with_digit (dropWhile ?sep s)) s
               \<or> ?L ''amount'' (\<lambda>s. starts_with_digit (dropWhile ?sep s)) s
               \<or> ?L ''sum'' (\<lambda>s. starts_with_digit (dropWhile ?sep s)) s)"
    by (simp add: fun_eq_iff total_at_def)
  with matches have "succeeds (rmatch amountPattern Some) total_at"
    unfolding number separators by simp
  then show ?thesis
    by (simp add: succeeds_def)
qed

lemma match_at_amountPattern: "(match_at amountPattern i s \<noteq> None) = total_at s"
  using amountPattern_matches [of "\<lparr>endIndex = i, rest = s, captures = Map.empty\<rparr>"]
  by (auto simp: match_at_def split: option.splits)

lemma exec_from_amountPattern: "(exec_from amountPattern i s \<noteq> None) = has_total s"
proof (induction s arbitrary: i)
  case Nil
  show ?case using match_at_amountPattern [of i "[]"] by simp
next
  case (Cons c cs)
  from Cons.IH [of "Suc i"] match_at_amountPattern [of i "c # cs"] show ?case
    by (auto split: option.splits)
qed

lemma amount_match_iff: "(str_match text amountPattern = None) = (\<not> has_total text)"
  using exec_from_amountPattern [of 0 "text"] by (auto simp: str_match_def)

section \<open>The fields of the extractor, one by one\<close>

lemma js_eq_iff [simp]: "js a = js b \<longleftrightarrow> a = b"
  by (simp add: js_def inj_map_eq_map inj_on_def)

lemma invoiceNumber_extract:
  "invoiceNumber (extractBillingData text) =
     (case str_match text invoicePattern of None \<Rightarrow> [] | Some mt \<Rightarrow> capture mt 1)"
  by (simp add: extractBillingData_def Let_def split: option.splits list.splits)

lemma date_extract:
  "date (extractBillingData text) =
     (case str_match text datePattern of None \<Rightarrow> [] | Some mt \<Rightarrow> matched mt)"
  by (simp add: extractBillingData_def Let_def split: option.splits list.splits)

lemma totalAmount_extract:
  "totalAmount (extractBillingData text) =
     (case str_match text amountPattern of
        None \<Rightarrow> JNum 0
      | Some mt \<Rightarrow> parseFloat (capture mt 1))"
  by (simp add: extractBillingData_def Let_def split: option.splits list.splits)

lemma vendor_extract:
  "vendor (extractBillingData text) =
     (case filter meaningful (filter (\<lambda>line. line \<noteq> []) (map trim (split_nl text))) of
        [] \<Rightarrow> []
      | l # ls \<Rightarrow> l)"
  by (simp add: extractBillingData_def Let_def split: option.splits list.splits)

lemma items_extract:
  "items (extractBillingData text) = map item_of (exec_all itemPattern 0 text)"
  by (simp add: extractBillingData_def Let_def split: option.splits list.splits)

section \<open>The timestamp of extraction and the status\<close>

lemma consistent_new_record: "consistent (new_record imageId f t)"
  by (simp add: consistent_def extractedAt_set_def processing_def get_def new_record_def)

lemma consistent_error:
  "consistent (r(js ''status'' \<mapsto> JStr (js ''error''), js ''extractedAt'' \<mapsto> JStr t))"
  by (simp add: consistent_def extractedAt_set_def processing_def get_def)

lemma consistent_completed:
  "consistent (r(js ''status'' \<mapsto> JStr (js ''completed''),
                  js ''extractedAt'' \<mapsto> JStr t, js ''rawText'' \<mapsto> v))"
  by (simp add: consistent_def extractedAt_set_def processing_def get_def)

lemma consistent_put:
  assumes "consistent r" "body (js ''status'') = None" "body (js ''extractedAt'') = None"
  shows "consistent (r ++ body ++ [js ''updatedAt'' \<mapsto> JStr t])"
  using assms
  by (simp add: consistent_def extractedAt_set_def processing_def get_def map_add_def)

lemma list_all_update:
  "list_all P xs \<Longrightarrow> P v \<Longrightarrow> list_all P (xs[i := v])"
  by (induction xs arbitrary: i) (auto split: nat.splits)

lemma findIndex_Some:
  "findIndex P xs = Some i \<Longrightarrow> i < length xs \<and> P (xs ! i) \<and> (\<forall>j<i. \<not> P (xs ! j))"
proof (induction xs arbitrary: i)
  case Nil
  then show ?case by simp
next
  case (Cons x xs)
  show ?case
  proof (cases "P x")
    case True
    with Cons.prems show ?thesis by simp
  next
    case False
    with Cons.prems obtain j where j: "findIndex P xs = Some j" "i = Suc j"
      by auto
    from Cons.IH [OF j(1)] False j(2) show ?thesis
      by (auto simp: less_Suc_eq_0_disj)
  qed
qed

lemma consistent_on_error:
  "list_all consistent (billingRecords w) \<Longrightarrow>
   list_all consistent (billingRecords (on_error e w recordId))"
  by (auto simp: on_error_def intro!: list_all_update consistent_error split: option.splits)

lemma consistent_process:
  assumes "list_all consistent (billingRecords w)"
  shows "list_all consistent (billingRecords (fst (processImageAsync e w recordId imagePath)))"
proof (cases "preprocessImage e (files w) imagePath")
  case (Inl err)
  with assms show ?thesis
    by (simp add: processImageAsync_def consistent_on_error)
next
  case (Inr p)
  obtain out fs where p: "p = (out, fs)" by (cases p)
  show ?thesis
  proof (cases "recognize e")
    case None
    have "list_all consistent (billingRecords (w\<lparr>files := fs\<rparr>))"
      using assms by simp
    from consistent_on_error [OF this] Inr p None show ?thesis
      by (simp add: processImageAsync_def)
  next
    case (Some tc)
    obtain ocr_text conf where tc: "tc = (ocr_text, conf)" by (cases tc)
    from assms Inr p Some tc show ?thesis
      by (auto simp: processImageAsync_def Let_def intro!: list_all_update consistent_completed
               split: option.splits)
  qed
qed

lemma consistent_step:
  assumes "list_all consistent (billingRecords w)" "allowed ev"
  shows "list_all consistent (billingRecords (step w ev))"
proof (cases ev)
  case (Upload f imageId t)
  with assms show ?thesis
    by (simp add: post_upload_def consistent_new_record)
next
  case (Run e recordId imagePath)
  with assms consistent_process show ?thesis by simp
next
  case (Put rid body t)
  with assms have b: "body (js ''status'') = None" "body (js ''extractedAt'') = None"
    by simp_all
  show ?thesis
  proof (cases "findIndex (has_id rid) (billingRecords w)")
    case None
    with assms Put show ?thesis by (simp add: put_record_def)
  next
    case (Some i)
    from findIndex_Some [OF Some] assms(1) have "consistent (billingRecords w ! i)"
      by (simp add: list_all_length)
    from consistent_put [OF this b] assms(1) Some Put show ?thesis
      by (simp add: put_record_def Let_def list_all_update)
  qed
qed

lemma consistent_foldl:
  "list_all consistent (billingRecords w) \<Longrightarrow> list_all allowed es \<Longrightarrow>
   list_all consistent (billingRecords (foldl step w es))"
  by (induction es arbitrary: w) (simp_all add: consistent_step)

text \<open>
  C1, amended. In every record reached by uploads, background runs (successful or
  failed) and updates whose body names neither \<^verbatim>\<open>status\<close> nor \<^verbatim>\<open>extractedAt\<close>, the field
  \<open>extractedAt\<close> is set if and only if the status is not \<^verbatim>\<open>processing\<close>.
\<close>

theorem extractedAt_iff_not_processing:
  assumes "list_all allowed es" and "r \<in> set (billingRecords (run_events es))"
  shows "extractedAt_set r \<longleftrightarrow> \<not> processing r"
proof -
  have "list_all consistent (billingRecords start)"
    by (simp add: start_def)
  from consistent_foldl [OF this assms(1)] assms(2) show ?thesis
    by (simp add: run_events_def list_all_iff consistent_def)
qed

text \<open>The definitions that run the store on concrete requests.\<close>

lemmas world_eval =
  run_events_def start_def upload_event_def demo_file_def post_upload_def new_record_def
  put_record_def has_id_def get_def processImageAsync_def preprocessImage_def on_error_def
  demo_env_def ocr_fails_env_def extractedAt_set_def processing_def js_def Let_def

text \<open>The theorem at an upload followed by a run whose recognition fails.\<close>

theorem extractedAt_iff_not_processing_witness:
  "list_all allowed [upload_event, Run ocr_fails_env (js ''id-1'') (js ''uploads/1-bill.png'')]
   \<and> (extractedAt_set (billingRecords (run_events
          [upload_event, Run ocr_fails_env (js ''id-1'') (js ''uploads/1-bill.png'')]) ! 0)
        \<longleftrightarrow> \<not> processing (billingRecords (run_events
          [upload_event, Run ocr_fails_env (js ''id-1'') (js ''uploads/1-bill.png'')]) ! 0))"
  using extractedAt_iff_not_processing
    [of "[upload_event, Run ocr_fails_env (js ''id-1'') (js ''uploads/1-bill.png'')]"
        "billingRecords (run_events
          [upload_event, Run ocr_fails_env (js ''id-1'') (js ''uploads/1-bill.png'')]) ! 0"]
  by (simp add: world_eval)

text \<open>
  C1 as stated fails: an update may name \<open>extractedAt\<close>. After an upload and the update
  \<^verbatim>\<open>{"extractedAt": "2024-03-01"}\<close> the record is still \<^verbatim>\<open>processing\<close> and \<open>extractedAt\<close> is set.
\<close>

theorem put_breaks_extractedAt_rule:
  "length (billingRecords (run_events
     [upload_event,
      Put (js ''id-1'') [js ''extractedAt'' \<mapsto> JStr (js ''2024-03-01'')] (js ''2024-03-01T10:00:01.000Z'')])) = 1
   \<and> processing (billingRecords (run_events
     [upload_event,
      Put (js ''id-1'') [js ''extractedAt'' \<mapsto> JStr (js ''2024-03-01'')] (js ''2024-03-01T10:00:01.000Z'')]) ! 0)
   \<and> extractedAt_set (billingRecords (run_events
     [upload_event,
      Put (js ''id-1'') [js ''extractedAt'' \<mapsto> JStr (js ''2024-03-01'')] (js ''2024-03-01T10:00:01.000Z'')]) ! 0)"
  by (simp add: world_eval)

section \<open>What an update changes\<close>

text \<open>
  C2, amended. An update of a record that is not found changes nothing. Otherwise the
  record becomes the old one overridden by the properties of the body, then by
  \<open>updatedAt\<close>: a property that the body does not name, other than \<open>updatedAt\<close>, keeps
  its value, so \<open>status\<close> and \<open>id\<close> are unchanged when the body names neither of them; the
  other records are unchanged.
\<close>

theorem put_record_frame:
  "case findIndex (has_id rid) records of
     None \<Rightarrow> snd (put_record records rid body t) = records
   | Some i \<Rightarrow>
       snd (put_record records rid body t) =
         records[i := (records ! i) ++ body ++ [js ''updatedAt'' \<mapsto> JStr t]]
       \<and> (\<forall>k. body k = None \<and> k \<noteq> js ''updatedAt'' \<longrightarrow>
              (snd (put_record records rid body t) ! i) k = (records ! i) k)
       \<and> (body (js ''status'') = None \<longrightarrow>
              get (snd (put_record records rid body t) ! i) ''status'' = get (records ! i) ''status'')
       \<and> (body (js ''id'') = None \<longrightarrow>
              get (snd (put_record records rid body t) ! i) ''id'' = get (records ! i) ''id'')"
proof (cases "findIndex (has_id rid) records")
  case None
  then show ?thesis by (simp add: put_record_def)
next
  case (Some i)
  from findIndex_Some [OF Some] have "i < length records" by simp
  with Some show ?thesis
    by (simp add: put_record_def Let_def get_def map_add_def)
qed

text \<open>The theorem at the update \<^verbatim>\<open>{"vendor": "Acme"}\<close> of a record just uploaded.\<close>

theorem put_record_frame_witness:
  "snd (put_record (billingRecords (run_events [upload_event])) (js ''id-1'')
          [js ''vendor'' \<mapsto> JStr (js ''Acme'')] (js ''2024-03-02''))
     = [(new_record (js ''id-1'') demo_file (js ''2024-03-01T10:00:00.000Z''))
          (js ''vendor'' \<mapsto> JStr (js ''Acme''), js ''updatedAt'' \<mapsto> JStr (js ''2024-03-02''))]
   \<and> get (snd (put_record (billingRecords (run_events [upload_event])) (js ''id-1'')
          [js ''vendor'' \<mapsto> JStr (js ''Acme'')] (js ''2024-03-02'')) ! 0) ''status''
     = JStr (js ''processing'')"
  using put_record_frame [where rid = "js ''id-1''"
          and records = "billingRecords (run_events [upload_event])"
          and body = "[js ''vendor'' \<mapsto> JStr (js ''Acme'')]" and t = "js ''2024-03-02''"]
  by (simp add: run_events_def start_def upload_event_def post_upload_def has_id_def get_def
        new_record_def)

text \<open>
  C2 as stated fails: the body \<^verbatim>\<open>{"status": "completed", "id": "id-2"}\<close> replaces the
  status and the identifier of a record that is being processed.
\<close>

theorem put_overwrites_status_and_id:
  "get (billingRecords (run_events [upload_event]) ! 0) ''status'' = JStr (js ''processing'')
   \<and> get (billingRecords (run_events [upload_event]) ! 0) ''id'' = JStr (js ''id-1'')
   \<and> get (snd (put_record (billingRecords (run_events [upload_event])) (js ''id-1'')
          [js ''status'' \<mapsto> JStr (js ''completed''), js ''id'' \<mapsto> JStr (js ''id-2'')]
          (js ''2024-03-02'')) ! 0) ''status'' = JStr (js ''completed'')
   \<and> get (snd (put_record (billingRecords (run_events [upload_event])) (js ''id-1'')
          [js ''status'' \<mapsto> JStr (js ''completed''), js ''id'' \<mapsto> JStr (js ''id-2'')]
          (js ''2024-03-02'')) ! 0) ''id'' = JStr (js ''id-2'')"
  by (simp add: world_eval)

section \<open>The extractor on the synthetic invoice\<close>

text \<open>
  C3. On the text made of the line \<^verbatim>\<open>Invoice #INV-2024-099\<close>, the date \<^verbatim>\<open>2024-03-01\<close>
  and the line \<^verbatim>\<open>Total: $123.45\<close>, the extractor returns the invoice number
  \<^verbatim>\<open>INV-2024-099\<close>, the date \<^verbatim>\<open>2024-03-01\<close> and the total amount 123.45; the same holds
  when the date stands on a line \<^verbatim>\<open>Date: 2024-03-01\<close>.
\<close>

theorem extract_synthetic_invoice:
  "invoiceNumber (extractBillingData
     (js ''Invoice #INV-2024-099'' @ [10] @ js ''2024-03-01'' @ [10] @ js ''Total: $123.45''))
     = js ''INV-2024-099''
   \<and> date (extractBillingData
     (js ''Invoice #INV-2024-099'' @ [10] @ js ''2024-03-01'' @ [10] @ js ''Total: $123.45''))
     = js ''2024-03-01''
   \<and> totalAmount (extractBillingData
     (js ''Invoice #INV-2024-099'' @ [10] @ js ''2024-03-01'' @ [10] @ js ''Total: $123.45''))
     = JNum 123.45
   \<and> invoiceNumber (extractBillingData
     (js ''Invoice #INV-2024-099'' @ [10] @ js ''Date: 2024-03-01'' @ [10] @ js ''Total: $123.45''))
     = js ''INV-2024-099''
   \<and> date (extractBillingData
     (js ''Invoice #INV-2024-099'' @ [10] @ js ''Date: 2024-03-01'' @ [10] @ js ''Total: $123.45''))
     = js ''2024-03-01''
   \<and> totalAmount (extractBillingData
     (js ''Invoice #INV-2024-099'' @ [10] @ js ''Date: 2024-03-01'' @ [10] @ js ''Total: $123.45''))
     = JNum 123.45"
  unfolding invoiceNumber_extract date_extract totalAmount_extract
  by (simp del: js_eq_iff
        add: match_eval invoicePattern_def datePattern_def amountPattern_def
             parseFloat_def digits_val_def)

section \<open>The total amount when the text has none\<close>

text \<open>
  C4, amended. For every text in which no label \<^verbatim>\<open>total\<close>, \<^verbatim>\<open>amount\<close> or \<^verbatim>\<open>sum\<close> (in any
  case) followed by a decimal number occurs, the extractor leaves the total amount at
  its initial value, the number 0.
\<close>

theorem total_without_label_is_zero:
  assumes "\<not> has_total text"
  shows "totalAmount (extractBillingData text) = JNum 0"
  using assms amount_match_iff [of "text"] by (simp add: totalAmount_extract)

text \<open>The theorem at the text \<^verbatim>\<open>Thank you\<close>.\<close>

theorem total_without_label_is_zero_witness:
  "\<not> has_total (js ''Thank you'') \<and> totalAmount (extractBillingData (js ''Thank you'')) = JNum 0"
proof -
  have "\<not> has_total (js ''Thank you'')"
    by (simp del: js_eq_iff
          add: js_def total_at_def starts_with_digit_def ci_def chr_def is_space_def one_of_def)
  with total_without_label_is_zero [of "js ''Thank you''"] show ?thesis
    by simp
qed

text \<open>
  C4 as stated fails: the text \<^verbatim>\<open>Thank you\<close> has no total, and the total amount that the
  extractor returns for it is the number 0, the same as for the text \<^verbatim>\<open>Total: 0\<close>.
\<close>

theorem absent_total_is_zero:
  "\<not> has_total (js ''Thank you'')
   \<and> totalAmount (extractBillingData (js ''Thank you'')) = JNum 0
   \<and> totalAmount (extractBillingData (js ''Total: 0'')) = JNum 0"
proof -
  have "\<not> has_total (js ''Thank you'')"
    by (simp del: js_eq_iff
          add: js_def total_at_def starts_with_digit_def ci_def chr_def is_space_def one_of_def)
  moreover have "totalAmount (extractBillingData (js ''Thank you'')) = JNum 0"
    "totalAmount (extractBillingData (js ''Total: 0'')) = JNum 0"
    unfolding totalAmount_extract
    by (simp_all del: js_eq_iff add: match_eval amountPattern_def parseFloat_def digits_val_def)
  ultimately show ?thesis by simp
qed

section \<open>The intermediate file of a run\<close>

lemma successful_run_removes_intermediate:
  assumes "toFile e" and "recognize e = Some (ocr_text, conf)"
  shows "files (fst (processImageAsync e w recordId imagePath))
           (replace_first (extname e imagePath) (js ''_processed.png'') imagePath) = None"
  using assms by (simp add: processImageAsync_def preprocessImage_def Let_def)

lemma failed_recognition_keeps_intermediate:
  assumes "toFile e" and "recognize e = None"
  shows "files (fst (processImageAsync e w recordId imagePath))
           (replace_first (extname e imagePath) (js ''_processed.png'') imagePath) = Some Image"
  using assms
  by (simp add: processImageAsync_def preprocessImage_def Let_def on_error_def split: option.splits)

text \<open>
  C5. The run removes the preprocessed image at the end of the \<^verbatim>\<open>try\<close> block only. When
  \<^verbatim>\<open>sharp\<close> has written it and the recognition throws, the run ends with the record in
  status \<^verbatim>\<open>error\<close> and the file still on disk.
\<close>

theorem failed_run_leaves_intermediate:
  "files (run_events [upload_event, Run ocr_fails_env (js ''id-1'') (js ''uploads/1-bill.png'')])
     (js ''uploads/1-bill_processed.png'') = Some Image
   \<and> get (billingRecords (run_events
          [upload_event, Run ocr_fails_env (js ''id-1'') (js ''uploads/1-bill.png'')]) ! 0) ''status''
       = JStr (js ''error'')"
  by (simp add: world_eval)

section \<open>A run that fails\<close>






section \<open>The sheet of line items\<close>

lemma detailedData_rows:
  "detailedData h records = Inr rows \<Longrightarrow>
   \<exists>rss. rows = concat rss \<and> list_all2 (\<lambda>r rs. record_rows h r = Inr rs) records rss"
proof (induction records arbitrary: rows)
  case Nil
  then show ?case by simp
next
  case (Cons r records)
  from Cons.prems obtain rs rows' where
    r: "record_rows h r = Inr rs" and d: "detailedData h records = Inr rows'" and
    rows: "rows = rs @ rows'"
    by (auto split: sum.splits)
  from Cons.IH [OF d] obtain rss where
    "rows' = concat rss" "list_all2 (\<lambda>r rs. record_rows h r = Inr rs) records rss"
    by blast
  with r rows have "rows = concat (rs # rss)
      \<and> list_all2 (\<lambda>r rs. record_rows h r = Inr rs) (r # records) (rs # rss)"
    by simp
  then show ?case by blast
qed

lemma item_rows_length: "item_rows r xs = Inr rs \<Longrightarrow> length rs = length xs"
  by (induction xs arbitrary: rs) (auto split: sum.splits)

lemma record_rows_nonempty: "record_rows h r = Inr rs \<Longrightarrow> rs \<noteq> []"
proof -
  assume a: "record_rows h r = Inr rs"
  show ?thesis
  proof (cases "get r ''items''")
    case (JArr xs)
    show ?thesis
    proof (cases xs)
      case Nil
      with a JArr show ?thesis
        by (auto simp: record_rows_def property_def gt_zero_def)
    next
      case (Cons x xs')
      with a JArr have "item_rows r xs = Inr rs"
        by (simp add: record_rows_def property_def gt_zero_def)
      from item_rows_length [OF this] Cons show ?thesis by auto
    qed
  qed (use a in \<open>auto simp: record_rows_def Let_def split: sum.splits bool.splits if_splits\<close>)
qed

lemma record_rows_no_items:
  "get r ''items'' = JArr [] \<Longrightarrow> record_rows h r = Inr [no_items_row r]"
  by (simp add: record_rows_def property_def gt_zero_def)

text \<open>
  C7. When the export answers with a download, the file holds a workbook whose sheet of
  line items is made of the rows of the completed records, in their order, and every
  completed record has at least one row there. A completed record whose list of items
  is empty has exactly one row: its description is \<^verbatim>\<open>No items extracted\<close>, its quantity
  and unit price are 0, and its total price is the total amount of the record (0 when
  the record has none).
\<close>

theorem line_items_sheet:
  assumes "post_export h w = (Download file name, w')"
  shows "\<exists>summary rss.
           files w' file = Some (Workbook [(''Summary'', summary), (''Line Items'', concat rss)])
           \<and> list_all2
                (\<lambda>r rs. rs \<noteq> [] \<and> (get r ''items'' = JArr [] \<longrightarrow>
                   (\<forall>a. get r ''totalAmount'' = JNum a \<longrightarrow>
                      map_of (hd rs) ''Total Price'' = Some (JNum a)) \<and>
                   rs = [[(''Invoice Number'', js_or (get r ''invoiceNumber'') (JStr (js ''N/A''))),
                          (''Vendor'', js_or (get r ''vendor'') (JStr (js ''N/A''))),
                          (''Item Description'', JStr (js ''No items extracted'')),
                          (''Quantity'', JNum 0),
                          (''Unit Price'', JNum 0),
                          (''Total Price'', js_or (get r ''totalAmount'') (JNum 0)),
                          (''Invoice Date'', js_or (get r ''date'') (JStr (js ''N/A'')))]]))
                (filter (\<lambda>r. get r ''status'' = JStr (js ''completed'')) (billingRecords w)) rss"
proof -
  let ?cs = "filter (\<lambda>r. get r ''status'' = JStr (js ''completed'')) (billingRecords w)"
  from assms obtain f fs where
    g: "generateExcelFile h (files w) ?cs = Inr (f, fs)" and
    w': "w' = w\<lparr>files := fs\<rparr>" and fp: "file = filepath f"
    by (auto simp: post_export_def Let_def split: if_splits sum.splits)
  from g obtain rows where
    d: "detailedData h ?cs = Inr rows" and
    fs: "fs (filepath f) = Some (Workbook [(''Summary'', map (summary_row h) ?cs), (''Line Items'', rows)])"
    by (auto simp: generateExcelFile_def Let_def split: sum.splits)
  from detailedData_rows [OF d] obtain rss where
    rss: "rows = concat rss" "list_all2 (\<lambda>r rs. record_rows h r = Inr rs) ?cs rss"
    by blast
  have "list_all2
          (\<lambda>r rs. rs \<noteq> [] \<and> (get r ''items'' = JArr [] \<longrightarrow>
             (\<forall>a. get r ''totalAmount'' = JNum a \<longrightarrow>
                map_of (hd rs) ''Total Price'' = Some (JNum a)) \<and>
             rs = [no_items_row r])) ?cs rss"
    using rss(2)
    by (rule list_all2_mono)
       (auto simp: record_rows_no_items no_items_row_def js_or_def dest: record_rows_nonempty)
  with fs rss(1) w' fp show ?thesis
    by (auto simp: no_items_row_def)
qed

text \<open>The theorem at the store with one completed record without items.\<close>

theorem line_items_sheet_witness:
  "fst (post_export demo_host completed_world)
     = Download (js ''exports/billing_export_2024-03-01_1709287205000.xlsx'')
         (js ''billing_export_2024-03-01_1709287205000.xlsx'')
   \<and> (\<exists>summary rss.
         files (snd (post_export demo_host completed_world))
           (js ''exports/billing_export_2024-03-01_1709287205000.xlsx'')
           = Some (Workbook [(''Summary'', summary), (''Line Items'', concat rss)]))"
proof -
  have items: "exec_all itemPattern 0 demo_text = []"
    by (simp del: js_eq_iff
          add: demo_text_def exec_all.simps match_eval itemPattern_def decimalPattern_def)
  have d: "fst (post_export demo_host completed_world)
     = Download (js ''exports/billing_export_2024-03-01_1709287205000.xlsx'')
         (js ''billing_export_2024-03-01_1709287205000.xlsx'')"
    by (simp add: completed_world_def world_eval post_export_def generateExcelFile_def
          record_rows_def property_def gt_zero_def demo_host_def billingData_obj_def
          items_extract items)
  then have "post_export demo_host completed_world
     = (Download (js ''exports/billing_export_2024-03-01_1709287205000.xlsx'')
         (js ''billing_export_2024-03-01_1709287205000.xlsx''),
        snd (post_export demo_host completed_world))"
    by (simp add: prod_eq_iff)
  from line_items_sheet [OF this] obtain summary rss where
    "files (snd (post_export demo_host completed_world))
       (js ''exports/billing_export_2024-03-01_1709287205000.xlsx'')
       = Some (Workbook [(''Summary'', summary), (''Line Items'', concat rss)])"
    by blast
  with d show ?thesis by blast
qed

section \<open>An export with nothing to export\<close>

text \<open>
  C8. When no record has the status \<^verbatim>\<open>completed\<close>, the export answers with status 400
  and the error \<^verbatim>\<open>No completed records to export\<close>, and leaves the records and the files
  as they are: no spreadsheet is written.
\<close>

theorem export_without_completed_records:
  assumes "filter (\<lambda>r. get r ''status'' = JStr (js ''completed'')) (billingRecords w) = []"
  shows "post_export h w =
           (Json 400 [js ''error'' \<mapsto> JStr (js ''No completed records to export'')], w)"
  using assms by (simp add: post_export_def)

text \<open>The theorem at a store whose only record is being processed.\<close>

theorem export_without_completed_records_witness:
  "post_export demo_host (run_events [upload_event]) =
     (Json 400 [js ''error'' \<mapsto> JStr (js ''No completed records to export'')],
      run_events [upload_event])"
  using export_without_completed_records [where w = "run_events [upload_event]" and h = demo_host]
  by (simp add: run_events_def start_def upload_event_def post_upload_def get_def new_record_def)

section \<open>The vendor\<close>

lemma repeat_chr_eos:
  "mn + length (rest x) \<le> n \<Longrightarrow>
   (RepeatMatcher n (rmatch (Chr p)) mn None True (rmatch Eos Some) x \<noteq> None)
     = (mn \<le> length (rest x) \<and> list_all p (rest x))"
proof (induction n arbitrary: mn x)
  case 0
  then show ?case by (simp add: RepeatMatcher.simps rmatch.simps)
next
  case (Suc n)
  show ?case
  proof (cases "rest x")
    case Nil
    then show ?thesis by (simp add: RepeatMatcher.simps rmatch.simps)
  next
    case (Cons c cs)
    let ?y = "x\<lparr>endIndex := Suc (endIndex x), rest := cs\<rparr>"
    show ?thesis
    proof (cases "mn = 0")
      case True
      with Suc.prems Cons have "0 + length (rest ?y) \<le> n" by simp
      from Suc.IH [OF this] True Cons show ?thesis
        by (auto simp: RepeatMatcher.simps rmatch.simps(2,8) split: option.splits)
    next
      case False
      with Suc.prems Cons have "(mn - 1) + length (rest ?y) \<le> n" by simp
      from Suc.IH [OF this] False Cons show ?thesis
        by (auto simp: RepeatMatcher.simps rmatch.simps(2,8) split: option.splits)
    qed
  qed
qed

lemma match_at_anchored:
  "(match_at (Seq Bos (Seq (Plus (Chr p)) Eos)) i s \<noteq> None) = (i = 0 \<and> s \<noteq> [] \<and> list_all p s)"
proof (cases "i = 0")
  case True
  let ?x = "\<lparr>endIndex = 0, rest = s, captures = Map.empty\<rparr>"
  let ?R = "RepeatMatcher (1 + length (rest ?x)) (rmatch (Chr p)) 1 None True (rmatch Eos Some) ?x"
  have "rmatch (Seq Bos (Seq (Plus (Chr p)) Eos)) Some ?x = ?R"
    by (simp add: rmatch.simps(3,5,7))
  moreover have "(?R \<noteq> None) = (1 \<le> length (rest ?x) \<and> list_all p (rest ?x))"
    by (rule repeat_chr_eos) simp
  moreover have "(1 \<le> length s) = (s \<noteq> [])"
    by (cases s) simp_all
  ultimately have "(rmatch (Seq Bos (Seq (Plus (Chr p)) Eos)) Some ?x \<noteq> None)
                     = (s \<noteq> [] \<and> list_all p s)"
    by simp
  with True show ?thesis
    by (auto simp: match_at_def split: option.splits)
next
  case False
  then have "rmatch (Seq Bos (Seq (Plus (Chr p)) Eos)) Some
               \<lparr>endIndex = i, rest = s, captures = Map.empty\<rparr> = None"
    by (simp add: rmatch.simps(3,7))
  with False show ?thesis
    by (simp add: match_at_def)
qed

lemma exec_from_anchored:
  "(exec_from (Seq Bos (Seq (Plus (Chr p)) Eos)) i s \<noteq> None) = (i = 0 \<and> s \<noteq> [] \<and> list_all p s)"
proof (induction s arbitrary: i)
  case Nil
  then show ?case using match_at_anchored [of p i "[]"] by simp
next
  case (Cons c cs)
  from Cons.IH [of "Suc i"] match_at_anchored [of p i "c # cs"] show ?case
    by (auto split: option.splits)
qed

lemma meaningful_iff:
  "meaningful line \<longleftrightarrow>
     length line > 3 \<and> \<not> list_all is_digit line
     \<and> \<not> list_all (\<lambda>c. one_of ''/-'' c \<or> is_space c) line"
  using exec_from_anchored [of is_digit 0 line]
        exec_from_anchored [of "\<lambda>c. one_of ''/-'' c \<or> is_space c" 0 line]
  by (auto simp: meaningful_def str_match_def numericPattern_def separatorPattern_def)

text \<open>
  C9, amended. For every text the vendor is the first of its trimmed, non-empty lines
  that is longer than 3, does not consist of digits only, and does not consist of
  slashes, hyphens and white space only; when there is no such line the vendor is empty.
\<close>

theorem vendor_first_meaningful_line:
  "vendor (extractBillingData text) =
     (case filter (\<lambda>line. length line > 3 \<and> \<not> list_all is_digit line
                          \<and> \<not> list_all (\<lambda>c. one_of ''/-'' c \<or> is_space c) line)
             (filter (\<lambda>line. line \<noteq> []) (map trim (split_nl text))) of
        [] \<Rightarrow> []
      | line # others \<Rightarrow> line)"
  unfolding vendor_extract by (simp add: meaningful_iff cong: filter_cong)

text \<open>The theorem at a text whose first two lines are digits and separators.\<close>

theorem vendor_first_meaningful_line_witness:
  "vendor (extractBillingData (js ''12345'' @ [10] @ js ''--/--'' @ [10] @ js '' Acme Corp ''))
     = js ''Acme Corp''"
  using vendor_first_meaningful_line
          [of "js ''12345'' @ [10] @ js ''--/--'' @ [10] @ js '' Acme Corp ''"]
  by (simp del: js_eq_iff add: js_def trim_def is_space_def is_digit_def one_of_def)

text \<open>
  C9 as stated fails: a line of punctuation other than slashes and hyphens is kept. For
  the text with the lines \<^verbatim>\<open>====\<close> and \<^verbatim>\<open>Acme Corp\<close> the extractor returns the vendor
  \<^verbatim>\<open>====\<close>, while the first line that is not purely punctuation is \<^verbatim>\<open>Acme Corp\<close>.
\<close>

theorem vendor_is_punctuation_line:
  "vendor (extractBillingData (js ''===='' @ [10] @ js ''Acme Corp'')) = js ''====''
   \<and> first_non_trivial_line (js ''===='' @ [10] @ js ''Acme Corp'') = js ''Acme Corp''"
  unfolding vendor_extract first_non_trivial_line_def
  by (simp del: js_eq_iff
        add: meaningful_iff non_trivial_def is_punctuation_def js_def trim_def is_space_def
             is_digit_def one_of_def)

section \<open>The currency\<close>

text \<open>
  C10. For every text the extractor returns the currency \<^verbatim>\<open>USD\<close>: no rule looks for a
  currency in the text.
\<close>

theorem currency_always_USD: "currency (extractBillingData text) = js ''USD''"
  by (simp add: extractBillingData_def Let_def split: option.splits list.splits)

end
